theory Spec2Isabelle
  imports
    Complex_Main
    "HOL-Library.Word"
    "HOL-Library.Signed_Division"
    "HOL-Library.AList"
    "HOL-Library.Dlist"
    "HOL-Library.Char_ord"
    "HOL-Library.List_Lexorder"
    "HOL-Library.Monad_Syntax"
begin

section \<open>The drawing-board server: id generation\<close>

text \<open>
  The Go type \<open>uint64\<close> is a 64-bit word (\<open>*\<close> and \<open>+\<close> wrap, \<open>div\<close> is the unsigned
  division).  The Go type \<open>int\<close> has the width of the target the server is built for,
  32 or 64 bits: it is the type \<open>'i word\<close> of the words of length \<open>'i\<close>, read in two's
  complement by \<open>sint\<close>, and a function of the source that computes with an \<open>int\<close> is a
  function for every length \<open>'i\<close>.  Go's \<open>%\<close> truncates towards zero (the result has
  the sign of the dividend): \<open>smod\<close> on the signed readings.  A run-time panic is \<open>None\<close>.
\<close>

type_synonym uint64 = "64 word"

definition letters :: string where
  "letters = ''abcdefghijklmnopqrstuvwxyzABCDEFGHIJKLMNOPQRSTUVWXYZ0123456789''"

text \<open>\<open>var randSeed uint64 = 1\<close>: the value the process starts with.\<close>

definition randSeed_init :: uint64 where
  "randSeed_init = 1"

text \<open>
  \<open>randomInt(max)\<close>, on the seed it reads and writes: the result and the new seed.
  The conversion \<open>int(randSeed/65536)\<close> keeps the low bits of the quotient, as many as
  an \<open>int\<close> has (\<open>ucast\<close>), and reads them as a signed value: all 64 bits on a 64-bit
  target, the low 32 bits on a 32-bit target.  \<open>% max\<close> panics (integer divide by
  zero) when \<open>max\<close> is 0 (the parameter is \<open>maxv\<close> here, \<open>max\<close> being a constant of HOL).
\<close>

definition randomInt :: "'i::len word \<Rightarrow> uint64 \<Rightarrow> ('i word \<times> uint64) option" where
  "randomInt maxv seed =
     (let seed' = seed * 1103515245 + 12345
      in if maxv = 0 then None
         else Some (word_of_int (sint (ucast (seed' div 65536) :: 'i word) smod sint maxv), seed'))"

text \<open>\<open>s[i]\<close> on a string: a panic when the index is negative or not below the length.\<close>

definition index_string :: "string \<Rightarrow> 'i::len word \<Rightarrow> char option" where
  "index_string s i =
     (if 0 \<le> sint i \<and> sint i < int (length s) then Some (s ! nat (sint i)) else None)"

text \<open>
  One turn of the loop of \<open>randomString\<close>, \<open>b[i] = letters[randomInt(len(letters))]\<close>,
  on the bytes filled so far and the seed: \<open>randomInt\<close> holds \<open>randMu\<close> for the time of
  one draw, and the mutex is free again between two turns.  The argument \<open>T\<close> is the
  type of \<open>int\<close>.
\<close>

definition randomString_turn ::
  "'i::len itself \<Rightarrow> string \<times> uint64 \<Rightarrow> (string \<times> uint64) option" where
  "randomString_turn T = (\<lambda>(b, seed).
     (case randomInt (of_nat (length letters) :: 'i word) seed of
        None \<Rightarrow> None
      | Some (r, seed1) \<Rightarrow>
          (case index_string letters r of
             None \<Rightarrow> None
           | Some ch \<Rightarrow> Some (b @ [ch], seed1))))"

text \<open>
  The loop \<open>for i := range b\<close> with \<open>k\<close> bytes still to fill, left to right, when no
  other goroutine draws in between.
\<close>

fun randomString_loop ::
  "'i::len itself \<Rightarrow> nat \<Rightarrow> string \<times> uint64 \<Rightarrow> (string \<times> uint64) option" where
  "randomString_loop T 0 bs = Some bs"
| "randomString_loop T (Suc k) bs =
     (case randomString_turn T bs of
        None \<Rightarrow> None
      | Some bs' \<Rightarrow> randomString_loop T k bs')"

text \<open>\<open>randomString(n)\<close>: \<open>make([]byte, n)\<close> panics on a negative length.\<close>

definition randomString :: "'i::len word \<Rightarrow> uint64 \<Rightarrow> (string \<times> uint64) option" where
  "randomString n seed =
     (if sint n < 0 then None else randomString_loop TYPE('i) (nat (sint n)) ([], seed))"

definition generateID :: "'i::len itself \<Rightarrow> uint64 \<Rightarrow> (string \<times> uint64) option" where
  "generateID T seed = randomString (8 :: 'i word) seed"

text \<open>\<open>k\<close> calls of \<open>generateID\<close> one after the other, the ids in call order.\<close>

fun generateIDs :: "'i::len itself \<Rightarrow> nat \<Rightarrow> uint64 \<Rightarrow> (string list \<times> uint64) option" where
  "generateIDs T 0 seed = Some ([], seed)"
| "generateIDs T (Suc k) seed =
     (case generateID T seed of
        None \<Rightarrow> None
      | Some (i, seed1) \<Rightarrow>
          (case generateIDs T k seed1 of
             None \<Rightarrow> None
           | Some (is, seed2) \<Rightarrow> Some (i # is, seed2)))"


section \<open>JSON values and the wire schema (schema.go)\<close>

text \<open>
  A JSON text as a tree.  An object keeps its members in the order of the text, with
  repeated keys.  Strings are byte strings (UTF-8).  A number is carried as the value
  \<open>float64\<close> holds for it; the server never computes with it, so it is a \<open>real\<close> here
  (number literals outside the range of \<open>float64\<close> are left out of the model).
  The model is of the texts \<open>encoding/json\<close> decodes as they are: it keeps the bytes
  of a string that is not valid UTF-8, where \<open>encoding/json\<close> puts U+FFFD for them,
  and it has no limit on nesting, where \<open>encoding/json\<close> refuses a text nested deeper
  than 10000 levels.
\<close>

datatype json =
    JNull
  | JBool bool
  | JNum real
  | JStr string
  | JArr "json list"
  | JObj "(string \<times> json) list"

text \<open>
  \<open>[]byte\<close> read from or written to a connection: \<open>None\<close> stands for bytes that are not
  a JSON text, \<open>Some j\<close> for the text of \<open>j\<close>.
\<close>

type_synonym bytes = "json option"

definition TypeDraw :: string where "TypeDraw = ''draw''"
definition TypeClear :: string where "TypeClear = ''clear''"
definition TypeSync :: string where "TypeSync = ''sync''"
definition TypeJoin :: string where "TypeJoin = ''join''"
definition TypeLeave :: string where "TypeLeave = ''leave''"
definition TypeCursor :: string where "TypeCursor = ''cursor''"
definition TypeUserList :: string where "TypeUserList = ''userlist''"

text \<open>
  \<open>type DrawElement struct\<close>, \<open>type UserInfo struct\<close>: the fields carry a prefix, since
  several structs of the source have a field \<open>ID\<close>.
\<close>

record DrawElement =
  el_ID :: string
  el_Type :: string
  el_X1 :: real
  el_Y1 :: real
  el_X2 :: real
  el_Y2 :: real
  el_StrokeColor :: string
  el_StrokeWidth :: real
  el_UserID :: string

record UserInfo =
  ui_ID :: string
  ui_Color :: string

text \<open>
  What the field \<open>Data interface{}\<close> of a message holds in this program: the value
  \<open>json.Unmarshal\<close> builds for a JSON text (\<open>nil\<close> is \<open>VJson JNull\<close>, a
  \<open>map[string]interface{}\<close> is an object with one member for each key), a
  \<open>DrawElement\<close>, a \<open>UserInfo\<close>, a \<open>[]UserInfo\<close>, or the map of the sync message
  with its elements, user id and colour.
\<close>

datatype go_value =
    VJson json
  | VElement DrawElement
  | VUserInfo UserInfo
  | VUserList "UserInfo list"
  | VSync "DrawElement list" string string

record Message =
  msg_Type :: string
  msg_UserID :: string
  msg_Data :: go_value

definition zero_Message :: Message where
  "zero_Message = \<lparr>msg_Type = [], msg_UserID = [], msg_Data = VJson JNull\<rparr>"

definition zero_DrawElement :: DrawElement where
  "zero_DrawElement =
     \<lparr>el_ID = [], el_Type = [], el_X1 = 0, el_Y1 = 0, el_X2 = 0, el_Y2 = 0,
      el_StrokeColor = [], el_StrokeWidth = 0, el_UserID = []\<rparr>"

subsection \<open>encoding/json, as far as the server uses it\<close>

text \<open>
  \<open>json.Unmarshal\<close> matches an object key with a struct field by the exact name or,
  failing that, by the folded name: ASCII letters without case, and the two runes that
  Unicode folds onto ASCII letters, U+017F (bytes C5 BF) onto S and U+212A (bytes
  E2 84 AA) onto K.  The field names of \<open>Message\<close> and of \<open>DrawElement\<close> are ASCII and
  pairwise different after folding, so a key selects the field whose folded name it has.
  Every other rune outside ASCII folds onto a rune outside ASCII; its bytes are left as
  they are here, since a key that has one matches no field either way.
\<close>

definition fold_byte :: "char \<Rightarrow> char" where
  "fold_byte c =
     (if of_char (CHR ''a'') \<le> (of_char c :: nat) \<and> (of_char c :: nat) \<le> of_char (CHR ''z'')
      then char_of (of_char c - (32 :: nat)) else c)"

fun foldName :: "string \<Rightarrow> string" where
  "foldName (a # b # c # cs) =
     (if a = CHR 0xE2 \<and> b = CHR 0x84 \<and> c = CHR 0xAA then CHR ''K'' # foldName cs
      else if a = CHR 0xC5 \<and> b = CHR 0xBF then CHR ''S'' # foldName (c # cs)
      else fold_byte a # foldName (b # c # cs))"
| "foldName [a, b] =
     (if a = CHR 0xC5 \<and> b = CHR 0xBF then [CHR ''S''] else [fold_byte a, fold_byte b])"
| "foldName [a] = [fold_byte a]"
| "foldName [] = []"

text \<open>
  Decoding into \<open>interface{}\<close>: an object becomes a map, in which a repeated key keeps
  its last value.  The map is the list of its entries, one for each key.
\<close>

definition to_map :: "(string \<times> 'a) list \<Rightarrow> (string \<times> 'a) list" where
  "to_map kvs = fold (\<lambda>kv m. AList.update (fst kv) (snd kv) m) kvs []"

primrec to_interface :: "json \<Rightarrow> json" where
  "to_interface JNull = JNull"
| "to_interface (JBool b) = JBool b"
| "to_interface (JNum x) = JNum x"
| "to_interface (JStr s) = JStr s"
| "to_interface (JArr xs) = JArr (map to_interface xs)"
| "to_interface (JObj kvs) = JObj (to_map (map (map_prod id to_interface) kvs))"

text \<open>\<open>json.Marshal\<close> of such a value writes the entries of a map sorted by key.\<close>

primrec marshal_interface :: "json \<Rightarrow> json" where
  "marshal_interface JNull = JNull"
| "marshal_interface (JBool b) = JBool b"
| "marshal_interface (JNum x) = JNum x"
| "marshal_interface (JStr s) = JStr s"
| "marshal_interface (JArr xs) = JArr (map marshal_interface xs)"
| "marshal_interface (JObj kvs) = JObj (sort_key fst (map (map_prod id marshal_interface) kvs))"

text \<open>Structs are written field by field, in the order of their declaration.\<close>

definition marshal_DrawElement :: "DrawElement \<Rightarrow> json" where
  "marshal_DrawElement e =
     JObj [(''id'', JStr (el_ID e)), (''elementType'', JStr (el_Type e)),
           (''x1'', JNum (el_X1 e)), (''y1'', JNum (el_Y1 e)),
           (''x2'', JNum (el_X2 e)), (''y2'', JNum (el_Y2 e)),
           (''strokeColor'', JStr (el_StrokeColor e)),
           (''strokeWidth'', JNum (el_StrokeWidth e)),
           (''userId'', JStr (el_UserID e))]"

definition marshal_UserInfo :: "UserInfo \<Rightarrow> json" where
  "marshal_UserInfo u = JObj [(''id'', JStr (ui_ID u)), (''color'', JStr (ui_Color u))]"

fun marshal_value :: "go_value \<Rightarrow> json" where
  "marshal_value (VJson j) = marshal_interface j"
| "marshal_value (VElement e) = marshal_DrawElement e"
| "marshal_value (VUserInfo u) = marshal_UserInfo u"
| "marshal_value (VUserList us) = JArr (map marshal_UserInfo us)"
| "marshal_value (VSync es uid color) =
     JObj [(''color'', JStr color), (''elements'', JArr (map marshal_DrawElement es)),
           (''userId'', JStr uid)]"

text \<open>
  \<open>json.Marshal(msg)\<close> for a \<open>Message\<close>: \<open>userId\<close> and \<open>data\<close> are \<open>omitempty\<close>, left
  out for the empty string and for a \<open>nil\<close> interface.  Marshalling does not fail on
  the values above, so the \<open>err == nil\<close> branches of the source are the only ones.
\<close>

definition marshal_Message :: "Message \<Rightarrow> json" where
  "marshal_Message m =
     JObj ([(''type'', JStr (msg_Type m))]
           @ (if msg_UserID m = [] then [] else [(''userId'', JStr (msg_UserID m))])
           @ (if msg_Data m = VJson JNull then [] else [(''data'', marshal_value (msg_Data m))]))"

text \<open>
  Decoding one JSON value into a field: a string field takes a string, a \<open>float64\<close>
  field a number, \<open>null\<close> leaves the field as it is, and any other value is a type
  error (\<open>False\<close>) that leaves the field as it is; decoding goes on with the next key,
  and \<open>Unmarshal\<close> reports the error at the end.
\<close>

definition decode_string :: "json \<Rightarrow> string \<Rightarrow> string \<times> bool" where
  "decode_string v old =
     (case v of JStr s \<Rightarrow> (s, True) | JNull \<Rightarrow> (old, True) | _ \<Rightarrow> (old, False))"

definition decode_float64 :: "json \<Rightarrow> real \<Rightarrow> real \<times> bool" where
  "decode_float64 v old =
     (case v of JNum x \<Rightarrow> (x, True) | JNull \<Rightarrow> (old, True) | _ \<Rightarrow> (old, False))"

definition Message_member :: "string \<times> json \<Rightarrow> Message \<times> bool \<Rightarrow> Message \<times> bool" where
  "Message_member kv acc =
     (let k = foldName (fst kv); v = snd kv; m = fst acc; ok = snd acc in
      if k = foldName ''type'' then
        (m\<lparr>msg_Type := fst (decode_string v (msg_Type m))\<rparr>,
         ok \<and> snd (decode_string v (msg_Type m)))
      else if k = foldName ''userId'' then
        (m\<lparr>msg_UserID := fst (decode_string v (msg_UserID m))\<rparr>,
         ok \<and> snd (decode_string v (msg_UserID m)))
      else if k = foldName ''data'' then (m\<lparr>msg_Data := VJson (to_interface v)\<rparr>, ok)
      else (m, ok))"

text \<open>
  \<open>json.Unmarshal(msgBytes, &msg)\<close> on a fresh \<open>msg\<close>: \<open>None\<close> is \<open>err != nil\<close>.
  The text \<open>null\<close> leaves the struct as it is and is no error; a text that is neither
  an object nor \<open>null\<close> is a type error.
\<close>

definition unmarshal_Message :: "bytes \<Rightarrow> Message option" where
  "unmarshal_Message b =
     (case b of
        None \<Rightarrow> None
      | Some (JObj kvs) \<Rightarrow>
          (let r = fold Message_member kvs (zero_Message, True)
           in if snd r then Some (fst r) else None)
      | Some JNull \<Rightarrow> Some zero_Message
      | Some _ \<Rightarrow> None)"

definition DrawElement_member ::
  "string \<times> json \<Rightarrow> DrawElement \<times> bool \<Rightarrow> DrawElement \<times> bool" where
  "DrawElement_member kv acc =
     (let k = foldName (fst kv); v = snd kv; e = fst acc; ok = snd acc in
      if k = foldName ''id'' then
        (e\<lparr>el_ID := fst (decode_string v (el_ID e))\<rparr>, ok \<and> snd (decode_string v (el_ID e)))
      else if k = foldName ''elementType'' then
        (e\<lparr>el_Type := fst (decode_string v (el_Type e))\<rparr>,
         ok \<and> snd (decode_string v (el_Type e)))
      else if k = foldName ''x1'' then
        (e\<lparr>el_X1 := fst (decode_float64 v (el_X1 e))\<rparr>, ok \<and> snd (decode_float64 v (el_X1 e)))
      else if k = foldName ''y1'' then
        (e\<lparr>el_Y1 := fst (decode_float64 v (el_Y1 e))\<rparr>, ok \<and> snd (decode_float64 v (el_Y1 e)))
      else if k = foldName ''x2'' then
        (e\<lparr>el_X2 := fst (decode_float64 v (el_X2 e))\<rparr>, ok \<and> snd (decode_float64 v (el_X2 e)))
      else if k = foldName ''y2'' then
        (e\<lparr>el_Y2 := fst (decode_float64 v (el_Y2 e))\<rparr>, ok \<and> snd (decode_float64 v (el_Y2 e)))
      else if k = foldName ''strokeColor'' then
        (e\<lparr>el_StrokeColor := fst (decode_string v (el_StrokeColor e))\<rparr>,
         ok \<and> snd (decode_string v (el_StrokeColor e)))
      else if k = foldName ''strokeWidth'' then
        (e\<lparr>el_StrokeWidth := fst (decode_float64 v (el_StrokeWidth e))\<rparr>,
         ok \<and> snd (decode_float64 v (el_StrokeWidth e)))
      else if k = foldName ''userId'' then
        (e\<lparr>el_UserID := fst (decode_string v (el_UserID e))\<rparr>,
         ok \<and> snd (decode_string v (el_UserID e)))
      else (e, ok))"

text \<open>\<open>json.Unmarshal(dataBytes, &element)\<close> on a fresh \<open>element\<close>.\<close>

definition unmarshal_DrawElement :: "json \<Rightarrow> DrawElement option" where
  "unmarshal_DrawElement j =
     (case j of
        JObj kvs \<Rightarrow>
          (let r = fold DrawElement_member kvs (zero_DrawElement, True)
           in if snd r then Some (fst r) else None)
      | JNull \<Rightarrow> Some zero_DrawElement
      | _ \<Rightarrow> None)"


section \<open>Clients, rooms and the hub\<close>

text \<open>
  Pointers are addresses: a \<open>*Client\<close> and a \<open>*Room\<close> are natural numbers, and the
  structs they point to live in two stores, total functions from addresses, with a
  counter for the next free address (\<open>&Client{...}\<close> and \<open>&Room{...}\<close> take it).
  The mutexes are not part of the state: each function below is one critical section
  or a sequence of them, and is run without interruption.
\<close>

type_synonym client_ptr = nat
type_synonym room_ptr = nat

text \<open>
  A buffered channel of \<open>[]byte\<close>: the payloads waiting, oldest first, its capacity, and
  whether \<open>close\<close> was called on it.
\<close>

record chan =
  ch_buf :: "json list"
  ch_cap :: nat
  ch_closed :: bool

text \<open>\<open>make(chan []byte, n)\<close>.\<close>

definition make_chan :: "nat \<Rightarrow> chan" where
  "make_chan n = \<lparr>ch_buf = [], ch_cap = n, ch_closed = False\<rparr>"

text \<open>
  \<open>select { case ch <- msg: default: }\<close>: a send on a closed channel panics (\<open>None\<close>);
  otherwise the payload is queued when there is room, and the \<open>default\<close> branch leaves
  the channel as it is when there is none.  Neither branch waits.
\<close>

definition chan_try_send :: "json \<Rightarrow> chan \<Rightarrow> chan option" where
  "chan_try_send msg ch =
     (if ch_closed ch then None
      else if length (ch_buf ch) < ch_cap ch then Some (ch\<lparr>ch_buf := ch_buf ch @ [msg]\<rparr>)
      else Some ch)"

text \<open>\<open>close(ch)\<close>: closing a closed channel panics.\<close>

definition chan_close :: "chan \<Rightarrow> chan option" where
  "chan_close ch = (if ch_closed ch then None else Some (ch\<lparr>ch_closed := True\<rparr>))"

text \<open>
  The \<open>*websocket.Conn\<close> of a client, as far as the server drives it: the text messages
  handed to \<open>WriteMessage\<close> while the connection was open, oldest first, and whether
  \<open>Close\<close> was called.  \<open>WriteMessage\<close> on a closed connection returns an error.
\<close>

record Conn =
  conn_written :: "json list"
  conn_closed :: bool

definition WriteMessage :: "json \<Rightarrow> Conn \<Rightarrow> Conn \<times> bool" where
  "WriteMessage msg cn =
     (if conn_closed cn then (cn, False)
      else (cn\<lparr>conn_written := conn_written cn @ [msg]\<rparr>, True))"

record Client =
  cl_ID :: string
  cl_Conn :: Conn
  cl_Room :: room_ptr
  cl_Color :: string
  cl_Send :: chan
  cl_closed :: bool

text \<open>
  \<open>Clients map[*Client]bool\<close> is used as a set of pointers: a list without repetitions,
  whose order stands for the order in which \<open>range\<close> visits the keys.
\<close>

record Room =
  rm_ID :: string
  rm_Clients :: "client_ptr dlist"
  rm_Elements :: "DrawElement list"

text \<open>The lines the server writes with \<open>log.Printf\<close>, without the text of an error.\<close>

datatype log_line =
    LogJoined string string
  | LogLeft string string
  | LogUnmarshalError
  | LogWebSocketError
  | LogUpgradeError

record (overloaded) ('i::len) state =
  hub_Rooms :: "string \<rightharpoonup> room_ptr"
  rooms :: "room_ptr \<Rightarrow> Room"
  next_room :: room_ptr
  clients :: "client_ptr \<Rightarrow> Client"
  next_client :: client_ptr
  colorIndex :: "'i word"
  randSeed :: uint64
  log_lines :: "log_line list"

definition log_Printf :: "log_line \<Rightarrow> 'i::len state \<Rightarrow> 'i state" where
  "log_Printf l s = s\<lparr>log_lines := log_lines s @ [l]\<rparr>"

definition userColors :: "string list" where
  "userColors = [''#e74c3c'', ''#3498db'', ''#2ecc71'', ''#f39c12'',
                 ''#9b59b6'', ''#1abc9c'', ''#e67e22'', ''#34495e'']"

text \<open>
  \<open>getNextColor\<close>: \<open>userColors[colorIndex%len(userColors)]\<close> panics on an index out
  of range, which a negative \<open>colorIndex\<close> gives.
\<close>

definition getNextColor :: "'i::len state \<Rightarrow> (string \<times> 'i state) option" where
  "getNextColor s =
     (let i = sint (colorIndex s) smod int (length userColors)
      in if 0 \<le> i \<and> i < int (length userColors)
         then Some (userColors ! nat i, s\<lparr>colorIndex := colorIndex s + 1\<rparr>)
         else None)"

definition GetOrCreateRoom :: "string \<Rightarrow> 'i::len state \<Rightarrow> room_ptr \<times> 'i state" where
  "GetOrCreateRoom roomID s =
     (case hub_Rooms s roomID of
        Some room \<Rightarrow> (room, s)
      | None \<Rightarrow>
          (let room = next_room s
           in (room,
               s\<lparr>rooms := (rooms s)(room :=
                     \<lparr>rm_ID = roomID, rm_Clients = Dlist.empty, rm_Elements = []\<rparr>),
                 next_room := Suc room,
                 hub_Rooms := (hub_Rooms s)(roomID \<mapsto> room)\<rparr>)))"

definition update_room :: "room_ptr \<Rightarrow> (Room \<Rightarrow> Room) \<Rightarrow> 'i::len state \<Rightarrow> 'i state" where
  "update_room r f s = s\<lparr>rooms := (rooms s)(r := f (rooms s r))\<rparr>"

definition update_client :: "client_ptr \<Rightarrow> (Client \<Rightarrow> Client) \<Rightarrow> 'i::len state \<Rightarrow> 'i state" where
  "update_client c f s = s\<lparr>clients := (clients s)(c := f (clients s c))\<rparr>"

definition AddClient :: "room_ptr \<Rightarrow> client_ptr \<Rightarrow> 'i::len state \<Rightarrow> 'i state" where
  "AddClient r client s =
     update_room r (\<lambda>rm. rm\<lparr>rm_Clients := Dlist.insert client (rm_Clients rm)\<rparr>) s"

definition RemoveClient :: "room_ptr \<Rightarrow> client_ptr \<Rightarrow> 'i::len state \<Rightarrow> 'i state" where
  "RemoveClient r client s =
     update_room r (\<lambda>rm. rm\<lparr>rm_Clients := Dlist.remove client (rm_Clients rm)\<rparr>) s"

definition AddElement :: "room_ptr \<Rightarrow> DrawElement \<Rightarrow> 'i::len state \<Rightarrow> 'i state" where
  "AddElement r element s =
     update_room r (\<lambda>rm. rm\<lparr>rm_Elements := rm_Elements rm @ [element]\<rparr>) s"

definition ClearElements :: "room_ptr \<Rightarrow> 'i::len state \<Rightarrow> 'i state" where
  "ClearElements r s = update_room r (\<lambda>rm. rm\<lparr>rm_Elements := []\<rparr>) s"

text \<open>\<open>GetElements\<close> returns a fresh slice with the elements copied into it.\<close>

definition GetElements :: "room_ptr \<Rightarrow> 'i::len state \<Rightarrow> DrawElement list" where
  "GetElements r s = rm_Elements (rooms s r)"

text \<open>
  \<open>GetUserList\<close> ranges over the map \<open>r.Clients\<close>, in an order Go leaves open: the
  list here is in the order of the list that stands for the map, one of the orders
  the code may produce.
\<close>

definition GetUserList :: "room_ptr \<Rightarrow> 'i::len state \<Rightarrow> UserInfo list" where
  "GetUserList r s =
     map (\<lambda>client. \<lparr>ui_ID = cl_ID (clients s client), ui_Color = cl_Color (clients s client)\<rparr>)
       (list_of_dlist (rm_Clients (rooms s r)))"

text \<open>
  The body of the loops of \<open>Broadcast\<close> and \<open>BroadcastToAll\<close> for one client, between
  \<open>client.mu.Lock()\<close> and \<open>client.mu.Unlock()\<close>: nothing is sent once \<open>closed\<close> is set.
\<close>

definition send_locked :: "json \<Rightarrow> client_ptr \<Rightarrow> 'i::len state \<Rightarrow> 'i state option" where
  "send_locked msg client s =
     (if cl_closed (clients s client) then Some s
      else (case chan_try_send msg (cl_Send (clients s client)) of
              None \<Rightarrow> None
            | Some ch \<Rightarrow> Some (update_client client (\<lambda>c. c\<lparr>cl_Send := ch\<rparr>) s)))"

fun Broadcast_range :: "json \<Rightarrow> client_ptr \<Rightarrow> client_ptr list \<Rightarrow> 'i::len state \<Rightarrow> 'i state option" where
  "Broadcast_range msg sender [] s = Some s"
| "Broadcast_range msg sender (client # rest) s =
     (if client \<noteq> sender then
        (case send_locked msg client s of
           None \<Rightarrow> None
         | Some s' \<Rightarrow> Broadcast_range msg sender rest s')
      else Broadcast_range msg sender rest s)"

definition Broadcast :: "room_ptr \<Rightarrow> json \<Rightarrow> client_ptr \<Rightarrow> 'i::len state \<Rightarrow> 'i state option" where
  "Broadcast r msg sender s =
     Broadcast_range msg sender (list_of_dlist (rm_Clients (rooms s r))) s"

fun BroadcastToAll_range :: "json \<Rightarrow> client_ptr list \<Rightarrow> 'i::len state \<Rightarrow> 'i state option" where
  "BroadcastToAll_range msg [] s = Some s"
| "BroadcastToAll_range msg (client # rest) s =
     (case send_locked msg client s of
        None \<Rightarrow> None
      | Some s' \<Rightarrow> BroadcastToAll_range msg rest s')"

definition BroadcastToAll :: "room_ptr \<Rightarrow> json \<Rightarrow> 'i::len state \<Rightarrow> 'i state option" where
  "BroadcastToAll r msg s =
     BroadcastToAll_range msg (list_of_dlist (rm_Clients (rooms s r))) s"


section \<open>The pumps and the WebSocket handler\<close>

text \<open>
  \<open>case TypeDraw\<close> of \<open>readPump\<close>, for the message \<open>msg\<close> whose \<open>UserID\<close> is already
  overwritten.  When the data does not decode into a \<open>DrawElement\<close>, nothing is stored
  and \<open>msg.Data\<close> stays what the client sent; the message is broadcast in both cases.
\<close>

definition readPump_draw :: "client_ptr \<Rightarrow> Message \<Rightarrow> 'i::len state \<Rightarrow> 'i state option" where
  "readPump_draw c msg s =
     (case unmarshal_DrawElement (marshal_value (msg_Data msg)) of
        Some element \<Rightarrow>
          (let element' = element\<lparr>el_UserID := cl_ID (clients s c)\<rparr>;
               s1 = AddElement (cl_Room (clients s c)) element' s;
               msg' = msg\<lparr>msg_Data := VElement element'\<rparr>
           in Broadcast (cl_Room (clients s1 c)) (marshal_Message msg') c s1)
      | None \<Rightarrow> Broadcast (cl_Room (clients s c)) (marshal_Message msg) c s)"

text \<open>
  One turn of the loop of \<open>readPump\<close> after \<open>ReadMessage\<close> returned \<open>msgBytes\<close> without
  error.  Every path ends the turn with the loop still running; \<open>None\<close> is a panic.
  Only the failure to decode the envelope is logged.
\<close>

definition readPump_message :: "client_ptr \<Rightarrow> bytes \<Rightarrow> 'i::len state \<Rightarrow> 'i state option" where
  "readPump_message c msgBytes s =
     (case unmarshal_Message msgBytes of
        None \<Rightarrow> Some (log_Printf LogUnmarshalError s)
      | Some m \<Rightarrow>
          (let msg = m\<lparr>msg_UserID := cl_ID (clients s c)\<rparr> in
           if msg_Type msg = TypeDraw then readPump_draw c msg s
           else if msg_Type msg = TypeCursor then
             Broadcast (cl_Room (clients s c)) (marshal_Message msg) c s
           else if msg_Type msg = TypeClear then
             (let s1 = ClearElements (cl_Room (clients s c)) s
              in BroadcastToAll (cl_Room (clients s1 c)) (marshal_Message msg) s1)
           else Some s))"

text \<open>
  The deferred function of \<open>readPump\<close>, run when the loop is left.  Its first critical
  section, under \<open>c.mu\<close>, sets \<open>closed\<close> and closes \<open>c.Send\<close>; then the client is
  removed from its room, the connection is closed, and the leave message and the new
  user list are broadcast.
\<close>

definition readPump_close :: "client_ptr \<Rightarrow> 'i::len state \<Rightarrow> 'i state option" where
  "readPump_close c s =
     (case chan_close (cl_Send (clients s c)) of
        None \<Rightarrow> None
      | Some ch \<Rightarrow> Some (update_client c (\<lambda>cl. cl\<lparr>cl_closed := True, cl_Send := ch\<rparr>) s))"

definition Conn_Close :: "client_ptr \<Rightarrow> 'i::len state \<Rightarrow> 'i state" where
  "Conn_Close c s = update_client c (\<lambda>cl. cl\<lparr>cl_Conn := (cl_Conn cl)\<lparr>conn_closed := True\<rparr>\<rparr>) s"

definition readPump_defer :: "client_ptr \<Rightarrow> 'i::len state \<Rightarrow> 'i state option" where
  "readPump_defer c s =
     do {
       s1 \<leftarrow> readPump_close c s;
       let r = cl_Room (clients s1 c);
       let s2 = RemoveClient r c s1;
       let s3 = Conn_Close c s2;
       let leaveMsg = \<lparr>msg_Type = TypeLeave, msg_UserID = cl_ID (clients s3 c),
                       msg_Data = VJson JNull\<rparr>;
       s4 \<leftarrow> Broadcast r (marshal_Message leaveMsg) c s3;
       let userListMsg = \<lparr>msg_Type = TypeUserList, msg_UserID = [],
                          msg_Data = VUserList (GetUserList r s4)\<rparr>;
       s5 \<leftarrow> BroadcastToAll r (marshal_Message userListMsg) s4;
       Some (log_Printf (LogLeft (cl_ID (clients s5 c)) (rm_ID (rooms s5 r))) s5)
     }"

text \<open>
  What \<open>c.Conn.ReadMessage()\<close> returns (an error is logged when it is an unexpected
  close error), and \<open>readPump\<close> on the results of its calls in order: the loop ends at
  the first error and the deferred function runs.  When the list is used up the loop is
  waiting in \<open>ReadMessage\<close>.
\<close>

datatype read_result = ReadError bool | ReadOk bytes

fun readPump :: "client_ptr \<Rightarrow> read_result list \<Rightarrow> 'i::len state \<Rightarrow> 'i state option" where
  "readPump c [] s = Some s"
| "readPump c (ReadError unexpected # rest) s =
     readPump_defer c (if unexpected then log_Printf LogWebSocketError s else s)"
| "readPump c (ReadOk msgBytes # rest) s =
     (case readPump_message c msgBytes s of
        None \<Rightarrow> None
      | Some s' \<Rightarrow> readPump c rest s')"

text \<open>
  One turn of \<open>writePump\<close>: it takes the oldest payload of \<open>c.Send\<close> and writes it; on a
  write error, or when the channel is closed and empty, it returns and closes the
  connection (\<open>True\<close>: the pump has returned).  With the channel open and empty it waits.
\<close>

definition writePump_turn :: "client_ptr \<Rightarrow> 'i::len state \<Rightarrow> 'i state \<times> bool" where
  "writePump_turn c s =
     (case ch_buf (cl_Send (clients s c)) of
        [] \<Rightarrow> if ch_closed (cl_Send (clients s c)) then (Conn_Close c s, True) else (s, False)
      | msg # rest \<Rightarrow>
          (let s1 = update_client c (\<lambda>cl. cl\<lparr>cl_Send := (cl_Send cl)\<lparr>ch_buf := rest\<rparr>\<rparr>) s;
               w = WriteMessage msg (cl_Conn (clients s1 c));
               s2 = update_client c (\<lambda>cl. cl\<lparr>cl_Conn := fst w\<rparr>) s1
           in if snd w then (s2, False) else (Conn_Close c s2, True)))"

text \<open>
  \<open>handleWebSocket\<close> up to the start of the pumps, for the path parameter \<open>roomId\<close>, the
  query parameter \<open>userId\<close> and the outcome of \<open>upgrader.Upgrade\<close>.  The result is the
  new client, or no client when the upgrade failed; \<open>None\<close> is a panic.
\<close>

definition new_Client :: "string \<Rightarrow> room_ptr \<Rightarrow> string \<Rightarrow> Client" where
  "new_Client userID room color =
     \<lparr>cl_ID = userID, cl_Conn = \<lparr>conn_written = [], conn_closed = False\<rparr>,
      cl_Room = room, cl_Color = color, cl_Send = make_chan 256, cl_closed = False\<rparr>"

definition handleWebSocket ::
  "string \<Rightarrow> string \<Rightarrow> bool \<Rightarrow> 'i::len state \<Rightarrow> (client_ptr option \<times> 'i state) option" where
  "handleWebSocket roomId userId upgraded s =
     do {
       let roomID = (if roomId = [] then ''default'' else roomId);
       (userID, s0) \<leftarrow>
          (if userId = [] then
             map_option (\<lambda>(i, seed). (i, s\<lparr>randSeed := seed\<rparr>)) (generateID TYPE('i) (randSeed s))
           else Some (userId, s));
       if \<not> upgraded then Some (None, log_Printf LogUpgradeError s0)
       else do {
         let (room, s1) = GetOrCreateRoom roomID s0;
         (color, s2) \<leftarrow> getNextColor s1;
         let client = next_client s2;
         let s3 = s2\<lparr>clients := (clients s2)(client := new_Client userID room color),
                     next_client := Suc client\<rparr>;
         let s4 = log_Printf (LogJoined userID roomID) (AddClient room client s3);
         let syncMsg = \<lparr>msg_Type = TypeSync, msg_UserID = userID,
                         msg_Data = VSync (GetElements room s4) userID color\<rparr>;
         let s5 = update_client client
                    (\<lambda>cl. cl\<lparr>cl_Conn := fst (WriteMessage (marshal_Message syncMsg) (cl_Conn cl))\<rparr>)
                    s4;
         let joinMsg = \<lparr>msg_Type = TypeJoin, msg_UserID = userID,
                         msg_Data = VUserInfo \<lparr>ui_ID = userID, ui_Color = color\<rparr>\<rparr>;
         s6 \<leftarrow> Broadcast room (marshal_Message joinMsg) client s5;
         let userListMsg = \<lparr>msg_Type = TypeUserList, msg_UserID = [],
                            msg_Data = VUserList (GetUserList room s6)\<rparr>;
         s7 \<leftarrow> BroadcastToAll room (marshal_Message userListMsg) s6;
         Some (Some client, s7)
       }
     }"

text \<open>
  The state the process starts in: no room, no client, the first colour, seed 1.  An
  address not yet taken holds the zero value of its struct; the \<open>Send\<close> of the zero
  \<open>Client\<close> is the nil channel, on which a send in a \<open>select\<close> is never ready.
\<close>

definition zero_Client :: Client where
  "zero_Client =
     \<lparr>cl_ID = [], cl_Conn = \<lparr>conn_written = [], conn_closed = False\<rparr>, cl_Room = 0,
      cl_Color = [], cl_Send = make_chan 0, cl_closed = False\<rparr>"

definition zero_Room :: Room where
  "zero_Room = \<lparr>rm_ID = [], rm_Clients = Dlist.empty, rm_Elements = []\<rparr>"

definition init_state :: "'i::len state" where
  "init_state =
     \<lparr>hub_Rooms = Map.empty, rooms = (\<lambda>_. zero_Room), next_room = 0,
      clients = (\<lambda>_. zero_Client), next_client = 0, colorIndex = 0,
      randSeed = randSeed_init, log_lines = []\<rparr>"


section \<open>Runs of the server\<close>

text \<open>
  The goroutines of the server interleave between critical sections.  \<open>atomic\<close> has one
  rule for each critical section and each unlocked statement of the source that writes
  the state, for any caller and any argument: a run of the server is a sequence of such
  steps from \<open>init_state\<close>.  A draw of \<open>randomInt\<close> is one step (\<open>randMu\<close> is held for
  one draw only), so that the draws of two callers of \<open>randomString\<close> may alternate.
  The deferred function of \<open>readPump\<close> runs once for a client, while its \<open>closed\<close>
  flag is still unset.
\<close>

inductive atomic :: "'i::len state \<Rightarrow> 'i state \<Rightarrow> bool" where
  a_send: "send_locked msg client s = Some s' \<Longrightarrow> atomic s s'"
| a_close: "client < next_client s \<Longrightarrow> \<not> cl_closed (clients s client) \<Longrightarrow>
     readPump_close client s = Some s' \<Longrightarrow> atomic s s'"
| a_recv: "ch_buf (cl_Send (clients s client)) = msg # rest \<Longrightarrow>
     atomic s (update_client client (\<lambda>cl. cl\<lparr>cl_Send := (cl_Send cl)\<lparr>ch_buf := rest\<rparr>\<rparr>) s)"
| a_write: "atomic s (update_client client (\<lambda>cl. cl\<lparr>cl_Conn := fst (WriteMessage msg (cl_Conn cl))\<rparr>) s)"
| a_conn_close: "atomic s (Conn_Close client s)"
| a_new: "atomic s (s\<lparr>clients := (clients s)(next_client s := new_Client userID room color),
                     next_client := Suc (next_client s)\<rparr>)"
| a_add_client: "atomic s (AddClient r client s)"
| a_remove_client: "atomic s (RemoveClient r client s)"
| a_add_element: "atomic s (AddElement r element s)"
| a_clear: "atomic s (ClearElements r s)"
| a_room: "atomic s (snd (GetOrCreateRoom roomID s))"
| a_color: "getNextColor s = Some (color, s') \<Longrightarrow> atomic s s'"
| a_seed: "randomInt (maxv :: 'i word) (randSeed s) = Some (r, seed) \<Longrightarrow>
     atomic s (s\<lparr>randSeed := seed\<rparr>)"
| a_log: "atomic s (log_Printf l s)"

definition reachable :: "'i::len state \<Rightarrow> bool" where
  "reachable s = atomic\<^sup>*\<^sup>* init_state s"

text \<open>
  Handlers inside \<open>generateID()\<close> at the same time.  Each has its own \<open>b\<close>, the bytes
  filled so far, and they share \<open>randSeed\<close>; a turn of the loop of one of them is one
  critical section under \<open>randMu\<close>.  \<open>scheduled_turns\<close> runs the turns in the order
  \<open>sched\<close> in which the calls (numbered by their place in the list) take the mutex; a
  call that has filled its 8 bytes takes no further turn.
\<close>

fun scheduled_turns ::
  "'i::len itself \<Rightarrow> nat list \<Rightarrow> string list \<Rightarrow> uint64 \<Rightarrow> (string list \<times> uint64) option" where
  "scheduled_turns T [] calls seed = Some (calls, seed)"
| "scheduled_turns T (j # sched) calls seed =
     (if j < length calls \<and> length (calls ! j) < 8 then
        (case randomString_turn T (calls ! j, seed) of
           None \<Rightarrow> None
         | Some (b, seed1) \<Rightarrow> scheduled_turns T sched (calls[j := b]) seed1)
      else scheduled_turns T sched calls seed)"

text \<open>A step of the server that is not a draw: it leaves \<open>randSeed\<close> as it is.\<close>

definition quiet :: "'i::len state \<Rightarrow> 'i state \<Rightarrow> bool" where
  "quiet s s' = (atomic s s' \<and> randSeed s' = randSeed s)"

text \<open>
  The runs of the server with the ids it generates: \<open>gen_run m ids calls s\<close> holds when
  a run from \<open>init_state\<close> has reached \<open>s\<close> with \<open>calls\<close> the bytes of the calls of
  \<open>generateID()\<close> in progress and \<open>ids\<close> the ids \<open>generateID()\<close> has returned, in the
  order of return (a call returns when its 8 bytes are filled: \<open>randomString(8)\<close>).
  A handler may enter \<open>generateID()\<close> while fewer than \<open>m\<close> others are inside: with
  \<open>m = 1\<close> the calls do not overlap.  Every other step of the server
  is a step of \<open>atomic\<close> that is not a draw (\<open>randomInt\<close> has no caller but
  \<open>randomString\<close>, which has no caller but \<open>generateID\<close>).
\<close>

inductive gen_run :: "nat \<Rightarrow> string list \<Rightarrow> string list \<Rightarrow> 'i::len state \<Rightarrow> bool"
  for m :: nat where
  g_init: "gen_run m [] [] init_state"
| g_other: "gen_run m ids calls s \<Longrightarrow> quiet s s' \<Longrightarrow> gen_run m ids calls s'"
| g_call: "gen_run m ids calls s \<Longrightarrow> length calls < m \<Longrightarrow> gen_run m ids (calls @ [[]]) s"
| g_turn: "gen_run m ids calls s \<Longrightarrow> j < length calls \<Longrightarrow> length (calls ! j) < 8 \<Longrightarrow>
     randomString_turn TYPE('i) (calls ! j, randSeed s) = Some (b, seed) \<Longrightarrow>
     gen_run m ids (calls[j := b]) (s\<lparr>randSeed := seed\<rparr>)"
| g_return: "gen_run m ids calls s \<Longrightarrow> j < length calls \<Longrightarrow> length (calls ! j) = 8 \<Longrightarrow>
     gen_run m (ids @ [calls ! j]) (take j calls @ drop (Suc j) calls) s"

text \<open>
  The enqueue attempts of successive broadcasts on one client, in order, with nothing
  taken from its channel in between.
\<close>

fun send_each :: "json list \<Rightarrow> client_ptr \<Rightarrow> 'i::len state \<Rightarrow> 'i state option" where
  "send_each [] client s = Some s"
| "send_each (msg # msgs) client s =
     (case send_locked msg client s of
        None \<Rightarrow> None
      | Some s' \<Rightarrow> send_each msgs client s')"

text \<open>What is observed of a state: the queue of a client, the members of a room.\<close>

definition Send_buf :: "client_ptr \<Rightarrow> 'i::len state \<Rightarrow> json list" where
  "Send_buf client s = ch_buf (cl_Send (clients s client))"

definition members :: "room_ptr \<Rightarrow> 'i::len state \<Rightarrow> client_ptr list" where
  "members r s = list_of_dlist (rm_Clients (rooms s r))"


text \<open>
  The critical section of a broadcast on one client, when it does not panic: the
  payload is appended if the client is not closing and its channel has room.  It
  panics exactly on a client whose channel is closed while \<open>closed\<close> is unset.
\<close>

definition enq :: "json \<Rightarrow> Client \<Rightarrow> Client" where
  "enq msg cl =
     (if \<not> cl_closed cl \<and> length (ch_buf (cl_Send cl)) < ch_cap (cl_Send cl)
      then cl\<lparr>cl_Send := (cl_Send cl)\<lparr>ch_buf := ch_buf (cl_Send cl) @ [msg]\<rparr>\<rparr> else cl)"

definition sendable :: "Client \<Rightarrow> bool" where
  "sendable cl = (cl_closed cl \<or> \<not> ch_closed (cl_Send cl))"

definition deliver :: "json \<Rightarrow> (client_ptr \<Rightarrow> bool) \<Rightarrow> 'i::len state \<Rightarrow> 'i state" where
  "deliver msg P s = s\<lparr>clients := (\<lambda>p. if P p then enq msg (clients s p) else clients s p)\<rparr>"

subsection \<open>Example states and messages\<close>

text \<open>
  The room \<open>abc123\<close> with two clients, A at address 0 and B at address 1, their queues
  empty; the same with the queue of B full; and messages a client may send.
\<close>

definition ex_state :: "64 state" where
  "ex_state =
     \<lparr>hub_Rooms = [''abc123'' \<mapsto> 0],
      rooms = (\<lambda>_. zero_Room)(0 := \<lparr>rm_ID = ''abc123'', rm_Clients = Dlist.insert 1 (Dlist.insert 0 Dlist.empty),
                                    rm_Elements = []\<rparr>),
      next_room = 1,
      clients = (\<lambda>_. zero_Client)(0 := new_Client ''A'' 0 ''#e74c3c'',
                                   1 := new_Client ''B'' 0 ''#3498db''),
      next_client = 2, colorIndex = 2, randSeed = randSeed_init, log_lines = []\<rparr>"

definition ex_cursor_payload :: json where
  "ex_cursor_payload = JObj [(''type'', JStr ''cursor''), (''userId'', JStr ''A'')]"

definition ex_full_state :: "64 state" where
  "ex_full_state =
     update_client 1
       (\<lambda>cl. cl\<lparr>cl_Send := (cl_Send cl)\<lparr>ch_buf := replicate 256 ex_cursor_payload\<rparr>\<rparr>) ex_state"

definition ex_cursor :: bytes where
  "ex_cursor = Some (JObj [(''type'', JStr ''cursor''), (''userId'', JStr ''mallory'')])"

definition ex_clear :: bytes where
  "ex_clear = Some (JObj [(''type'', JStr ''clear'')])"

definition ex_clear_userId :: "json \<Rightarrow> bytes" where
  "ex_clear_userId v = Some (JObj [(''type'', JStr ''clear''), (''userId'', v)])"

definition ex_sync :: bytes where
  "ex_sync = Some (JObj [(''type'', JStr ''sync''), (''data'', JObj [(''elements'', JArr [])])])"

definition ex_element :: DrawElement where
  "ex_element =
     \<lparr>el_ID = ''e1'', el_Type = ''line'', el_X1 = 1, el_Y1 = 2, el_X2 = 3, el_Y2 = 4,
      el_StrokeColor = ''#000000'', el_StrokeWidth = 2, el_UserID = ''A''\<rparr>"

text \<open>A draw message with a well-formed element that names \<open>u\<close> as its author.\<close>

definition ex_draw :: "string \<Rightarrow> bytes" where
  "ex_draw u =
     Some (JObj [(''type'', JStr ''draw''), (''userId'', JStr u),
                 (''data'', JObj [(''id'', JStr ''e1''), (''elementType'', JStr ''line''),
                                  (''x1'', JNum 1), (''y1'', JNum 2), (''x2'', JNum 3),
                                  (''y2'', JNum 4), (''strokeColor'', JStr ''#000000''),
                                  (''strokeWidth'', JNum 2), (''userId'', JStr u)])])"

text \<open>
  A draw message whose data is an object but no element (\<open>x1\<close> is a string), and that
  names \<open>u\<close> as its author.
\<close>

definition ex_bad_draw :: "string \<Rightarrow> bytes" where
  "ex_bad_draw u =
     Some (JObj [(''type'', JStr ''draw''),
                 (''data'', JObj [(''id'', JStr ''e1''), (''x1'', JStr ''left''),
                                  (''userId'', JStr u)])])"

text \<open>A draw message whose data is a string, and the envelope \<open>ex_draw u\<close> decodes to.\<close>

definition ex_string_draw :: bytes where
  "ex_string_draw = Some (JObj [(''type'', JStr ''draw''), (''data'', JStr ''scribble'')])"

definition ex_draw_Message :: "string \<Rightarrow> Message" where
  "ex_draw_Message u =
     \<lparr>msg_Type = ''draw'', msg_UserID = u,
      msg_Data = VJson (JObj [(''id'', JStr ''e1''), (''elementType'', JStr ''line''),
                             (''x1'', JNum 1), (''y1'', JNum 2), (''x2'', JNum 3),
                             (''y2'', JNum 4), (''strokeColor'', JStr ''#000000''),
                             (''strokeWidth'', JNum 2), (''userId'', JStr u)])\<rparr>"

text \<open>
  Two intermediate results of decoding an envelope that agree on everything but the
  \<open>UserID\<close> decoded so far.
\<close>

definition same_but_UserID :: "Message \<times> bool \<Rightarrow> Message \<times> bool \<Rightarrow> bool" where
  "same_but_UserID a a' =
     (msg_Type (fst a) = msg_Type (fst a') \<and> msg_Data (fst a) = msg_Data (fst a')
      \<and> snd a = snd a')"

text \<open>The state of the example when the teardown of B has begun: flag set, queue closed.\<close>

definition ex_closing_state :: "64 state" where
  "ex_closing_state =
     update_client 1
       (\<lambda>cl. cl\<lparr>cl_closed := True, cl_Send := (cl_Send cl)\<lparr>ch_closed := True\<rparr>\<rparr>) ex_state"

text \<open>
  The invariant of the runs: the channel of a client is closed exactly when its
  \<open>closed\<close> flag is set, and only clients that were created are closing.
\<close>

definition chan_inv :: "'i::len state \<Rightarrow> bool" where
  "chan_inv s =
     (\<forall>c. ch_closed (cl_Send (clients s c)) = cl_closed (clients s c)
          \<and> (cl_closed (clients s c) \<longrightarrow> c < next_client s))"

section \<open>The id generator: range and determinism\<close>

lemma div65536_bound: "uint ((w :: 64 word) div 65536) < 2 ^ 48"
proof -
  have "uint (w div 65536) = uint w div 65536"
    by (simp add: uint_div)
  moreover have "uint w < 2 ^ 64"
    using uint_bounded [of w] by simp
  ultimately show ?thesis by simp
qed

lemma sint_word_of_int_small:
  assumes "0 \<le> x" and "x < 2 ^ (LENGTH('i::len) - 1)"
  shows "sint (word_of_int x :: 'i word) = x"
proof -
  have "- (2 ^ (LENGTH('i) - 1)) \<le> x" using assms(1) by (rule order_trans [rotated]) simp
  then have "signed_take_bit (LENGTH('i) - 1) x = x"
    using assms(2) by (rule signed_take_bit_int_eq_self)
  then show ?thesis by (simp add: signed_of_int)
qed

lemma pow48_le:
  assumes "48 < LENGTH('i::len)"
  shows "(2 :: int) ^ 48 \<le> 2 ^ (LENGTH('i) - 1)"
  using assms by (intro power_increasing) simp_all

text \<open>With more than 48 bits in an \<open>int\<close> the conversion of the quotient keeps its value.\<close>

lemma sint_div65536:
  assumes "48 < LENGTH('i::len)"
  shows "sint (ucast ((w :: 64 word) div 65536) :: 'i word) = uint (w div 65536)"
proof -
  have "uint (w div 65536) < 2 ^ (LENGTH('i) - 1)"
    using div65536_bound [of w] pow48_le [OF assms] by (rule order_less_le_trans)
  then have "sint (word_of_int (uint (w div 65536)) :: 'i word) = uint (w div 65536)"
    by (intro sint_word_of_int_small) simp_all
  then show ?thesis by (simp only: ucast_eq)
qed

lemma sint_62:
  assumes "48 < LENGTH('i::len)"
  shows "sint (62 :: 'i word) = 62"
proof -
  have "(62 :: int) < 2 ^ 48" by simp
  then have "(62 :: int) < 2 ^ (LENGTH('i) - 1)"
    using pow48_le [OF assms] by (rule order_less_le_trans)
  then have "sint (word_of_int 62 :: 'i word) = 62"
    by (intro sint_word_of_int_small) simp_all
  then show ?thesis by simp
qed

lemma sint_8:
  assumes "48 < LENGTH('i::len)"
  shows "sint (8 :: 'i word) = 8"
proof -
  have "(8 :: int) < 2 ^ 48" by simp
  then have "(8 :: int) < 2 ^ (LENGTH('i) - 1)"
    using pow48_le [OF assms] by (rule order_less_le_trans)
  then have "sint (word_of_int 8 :: 'i word) = 8"
    by (intro sint_word_of_int_small) simp_all
  then show ?thesis by simp
qed

lemma smod_nonneg_pos: "0 \<le> (a::int) \<Longrightarrow> 0 < m \<Longrightarrow> a smod m = a mod m"
  by (simp add: signed_modulo_int_def sgn_if)

lemma randomInt_Some:
  "maxv \<noteq> 0 \<Longrightarrow> \<exists>r. randomInt maxv seed = Some (r, seed * 1103515245 + 12345)"
  by (simp add: randomInt_def Let_def)

lemma randomInt_bounds:
  assumes len: "48 < LENGTH('i::len)"
    and pos: "0 < sint (maxv :: 'i word)"
    and r: "randomInt maxv seed = Some (r, seed')"
  shows "0 \<le> sint r \<and> sint r < sint maxv"
proof -
  let ?q = "ucast ((seed * 1103515245 + 12345) div (65536 :: 64 word)) :: 'i word"
  from r have r: "r = word_of_int (sint ?q smod sint maxv)"
    by (auto simp: randomInt_def Let_def split: if_splits)
  have q0: "0 \<le> sint ?q" by (simp only: sint_div65536 [OF len] uint_ge_0)
  have eq: "sint ?q smod sint maxv = sint ?q mod sint maxv"
    using q0 pos by (rule smod_nonneg_pos)
  have lo: "0 \<le> sint ?q mod sint maxv" and hi: "sint ?q mod sint maxv < sint maxv"
    using pos by simp_all
  have "sint maxv < 2 ^ (LENGTH('i) - 1)" by (rule sint_lt)
  with hi have "sint ?q mod sint maxv < 2 ^ (LENGTH('i) - 1)" by (rule order_less_trans)
  with lo have "sint (word_of_int (sint ?q mod sint maxv) :: 'i word) = sint ?q mod sint maxv"
    by (rule sint_word_of_int_small)
  with r eq lo hi show ?thesis by simp
qed

lemma length_letters: "length letters = 62"
  by (simp add: letters_def)

lemma index_string_letters:
  assumes "0 \<le> sint r" and "sint r < 62"
  shows "\<exists>ch. index_string letters r = Some ch \<and> ch \<in> set letters"
proof -
  have "nat (sint r) < length letters"
    using assms by (simp add: length_letters)
  then have "letters ! nat (sint r) \<in> set letters"
    by (rule nth_mem)
  then show ?thesis
    using assms by (simp add: index_string_def length_letters)
qed

lemma randomString_turn_total:
  assumes len: "48 < LENGTH('i::len)"
  shows "\<exists>ch. ch \<in> set letters
     \<and> randomString_turn TYPE('i) (b, seed) = Some (b @ [ch], seed * 1103515245 + 12345)"
proof -
  have m: "(of_nat (length letters) :: 'i word) = 62" by (simp add: length_letters)
  have s62: "sint (62 :: 'i word) = 62" by (rule sint_62 [OF len])
  have "(62 :: 'i word) \<noteq> 0"
  proof
    assume e: "(62 :: 'i word) = 0"
    have "sint (62 :: 'i word) = sint (0 :: 'i word)" by (simp only: e)
    with s62 show False by simp
  qed
  then obtain r :: "'i word" where r: "randomInt 62 seed = Some (r, seed * 1103515245 + 12345)"
    using randomInt_Some [of 62 seed] by auto
  have pos: "0 < sint (62 :: 'i word)" unfolding s62 by simp
  have "0 \<le> sint r \<and> sint r < sint (62 :: 'i word)"
    using len pos r by (rule randomInt_bounds)
  then have "0 \<le> sint r" and "sint r < 62" unfolding s62 by simp_all
  then obtain ch where ch: "index_string letters r = Some ch" "ch \<in> set letters"
    using index_string_letters by blast
  show ?thesis
    using r ch by (simp add: randomString_turn_def m)
qed

lemma randomString_loop_total:
  assumes len: "48 < LENGTH('i::len)"
  shows "\<exists>str seed'. randomString_loop TYPE('i) k (b, seed) = Some (b @ str, seed')
     \<and> length str = k \<and> set str \<subseteq> set letters"
proof (induction k arbitrary: b seed)
  case 0
  show ?case by simp
next
  case (Suc k)
  obtain ch where ch: "ch \<in> set letters"
    "randomString_turn TYPE('i) (b, seed) = Some (b @ [ch], seed * 1103515245 + 12345)"
    using randomString_turn_total [OF len] by blast
  obtain str seed' where rest:
    "randomString_loop TYPE('i) k (b @ [ch], seed * 1103515245 + 12345) = Some ((b @ [ch]) @ str, seed')"
    "length str = k" "set str \<subseteq> set letters"
    using Suc.IH by blast
  show ?case
    using ch rest by (intro exI [of _ "ch # str"] exI [of _ seed']) simp
qed

lemma generateID_loop:
  assumes "48 < LENGTH('i::len)"
  shows "generateID TYPE('i) seed = randomString_loop TYPE('i) 8 ([], seed)"
  unfolding generateID_def randomString_def sint_8 [OF assms] by simp

lemma generateID_total:
  assumes "48 < LENGTH('i::len)"
  shows "\<exists>i seed'. generateID TYPE('i) seed = Some (i, seed') \<and> length i = 8
     \<and> set i \<subseteq> set letters"
  using randomString_loop_total [OF assms, of 8 "[]" seed] by (simp add: generateID_loop [OF assms])


text \<open>
  C9.  Where an \<open>int\<close> has more than 48 bits, as on every 64-bit target: for a
  positive \<open>max\<close>, \<open>randomInt(max)\<close> returns a value from 0 up to, not including,
  \<open>max\<close>, since the quotient of the seed by 65536 is below \<open>2 ^ 48\<close> and its conversion
  to \<open>int\<close> is not negative.  Hence \<open>randomString(n)\<close>, for \<open>n\<close> not negative, returns
  without a panic a string of \<open>n\<close> characters of the alphabet of 62 letters and digits.
\<close>

theorem randomInt_in_range:
  assumes "48 < LENGTH('i::len)"
  shows "(0 < sint (maxv :: 'i word) \<longrightarrow>
      (\<exists>r seed'. randomInt maxv seed = Some (r, seed') \<and> 0 \<le> sint r \<and> sint r < sint maxv))
   \<and> 0 \<le> sint (ucast ((seed * 1103515245 + 12345) div 65536) :: 'i word)
   \<and> (0 \<le> sint (n :: 'i word) \<longrightarrow>
      (\<exists>str seed'. randomString n seed = Some (str, seed') \<and> int (length str) = sint n
         \<and> set str \<subseteq> set letters))
   \<and> length letters = 62"
proof (intro conjI impI)
  assume pos: "0 < sint maxv"
  then have "maxv \<noteq> 0" by auto
  then obtain r where r: "randomInt maxv seed = Some (r, seed * 1103515245 + 12345)"
    using randomInt_Some by blast
  with pos randomInt_bounds [OF assms pos r]
  show "\<exists>r seed'. randomInt maxv seed = Some (r, seed') \<and> 0 \<le> sint r \<and> sint r < sint maxv"
    by blast
next
  show "0 \<le> sint (ucast ((seed * 1103515245 + 12345) div 65536) :: 'i word)"
    by (simp only: sint_div65536 [OF assms] uint_ge_0)
next
  assume "0 \<le> sint n"
  then show "\<exists>str seed'. randomString n seed = Some (str, seed') \<and> int (length str) = sint n
         \<and> set str \<subseteq> set letters"
    using randomString_loop_total [OF assms, of "nat (sint n)" "[]" seed]
    by (auto simp: randomString_def)
next
  show "length letters = 62" by (rule length_letters)
qed

text \<open>The theorem at the call \<open>randomString(8)\<close> of \<open>generateID\<close>, with a 64-bit \<open>int\<close>.\<close>

theorem randomInt_in_range_witness:
  "48 < LENGTH(64) \<and> (0 :: int) < sint (62 :: 64 word) \<and> (0 :: int) \<le> sint (8 :: 64 word)
   \<and> (\<exists>r seed'. randomInt (62 :: 64 word) 1 = Some (r, seed') \<and> 0 \<le> sint r
         \<and> sint r < sint (62 :: 64 word))
   \<and> (\<exists>str seed'. randomString (8 :: 64 word) 1 = Some (str, seed')
         \<and> int (length str) = sint (8 :: 64 word) \<and> set str \<subseteq> set letters)"
  using randomInt_in_range [where 'i = 64 and maxv = 62 and seed = 1 and n = 8] by simp

text \<open>
  With a 32-bit \<open>int\<close> the conversion keeps the low 32 bits of the quotient, and they
  can read as a negative value: from the seed 1 the first two draws are 36 and 12
  (\<open>K\<close>, \<open>m\<close>) and the third draw, \<open>randomInt(62)\<close>, returns \<open>-61\<close>; the index is out of
  range and the first call of \<open>randomString(8)\<close>, hence of \<open>generateID()\<close>, panics.
\<close>

theorem randomInt_negative_with_32_bit_int:
  "randomString_loop TYPE(32) 2 ([], randSeed_init) = Some (''Km'', 1217759518843121895)
   \<and> (0 :: int) < sint (62 :: 32 word)
   \<and> randomInt (62 :: 32 word) 1217759518843121895 = Some (- 61, 15426401326682203284)
   \<and> sint (- 61 :: 32 word) = - 61
   \<and> index_string letters (- 61 :: 32 word) = None
   \<and> randomString (8 :: 32 word) randSeed_init = None
   \<and> generateID TYPE(32) randSeed_init = None"
  by code_simp

subsection \<open>Calls of the generator that do not overlap\<close>

lemma randomString_turn_length:
  "randomString_turn T (b, seed) = Some (b', seed') \<Longrightarrow> length b' = Suc (length b)"
  by (auto simp: randomString_turn_def split: option.splits)




lemma generateIDs_length:
  "generateIDs T k seed = Some (ids, seed') \<Longrightarrow> length ids = k"
  by (induction k arbitrary: seed ids) (auto split: option.splits)


text \<open>The turns of a schedule are steps of a run.\<close>

lemma scheduled_turns_gen_run:
  "gen_run m ids calls (s :: 'i::len state) \<Longrightarrow>
   scheduled_turns TYPE('i) sched calls (randSeed s) = Some (calls', seed') \<Longrightarrow>
   gen_run m ids calls' (s\<lparr>randSeed := seed'\<rparr>)"
proof (induction sched arbitrary: calls s)
  case Nil
  then have "calls' = calls" and "s\<lparr>randSeed := seed'\<rparr> = s" by simp_all
  with Nil.prems(1) show ?case by simp
next
  case (Cons j sched)
  show ?case
  proof (cases "j < length calls \<and> length (calls ! j) < 8")
    case True
    with Cons.prems(2) obtain b seed1 where
      turn: "randomString_turn TYPE('i) (calls ! j, randSeed s) = Some (b, seed1)"
      and rest: "scheduled_turns TYPE('i) sched (calls[j := b]) seed1 = Some (calls', seed')"
      by (auto split: option.splits)
    have "gen_run m ids (calls[j := b]) (s\<lparr>randSeed := seed1\<rparr>)"
      using Cons.prems(1) True turn by (intro g_turn) simp_all
    from Cons.IH [OF this] rest show ?thesis by simp
  next
    case False
    with Cons.prems(2) have "scheduled_turns TYPE('i) sched calls (randSeed s) = Some (calls', seed')"
      by auto
    with Cons.prems(1) show ?thesis by (rule Cons.IH)
  qed
qed

text \<open>A call that runs alone, and two calls that share their turns, as steps of a run.\<close>

lemma gen_run_call:
  assumes run: "gen_run m ids [] (s :: 'i::len state)" and m: "0 < m"
    and turns: "scheduled_turns TYPE('i) sched [[]] (randSeed s) = Some ([i], seed')"
    and i: "length i = 8"
  shows "gen_run m (ids @ [i]) [] (s\<lparr>randSeed := seed'\<rparr>)"
proof -
  have "gen_run m ids ([] @ [[]]) s"
    using run m by (intro g_call) simp_all
  then have "gen_run m ids [[]] s" by simp
  then have "gen_run m ids [i] (s\<lparr>randSeed := seed'\<rparr>)"
    using turns by (rule scheduled_turns_gen_run)
  then have "gen_run m (ids @ [[i] ! 0]) (take 0 [i] @ drop (Suc 0) [i]) (s\<lparr>randSeed := seed'\<rparr>)"
    using i by (intro g_return) simp_all
  then show ?thesis by simp
qed






section \<open>Broadcasts\<close>

text \<open>Frame facts: what the updates of the state leave alone.\<close>

lemma update_client_simps [simp]:
  "clients (update_client c f s) = (clients s)(c := f (clients s c))"
  "rooms (update_client c f s) = rooms s"
  "hub_Rooms (update_client c f s) = hub_Rooms s"
  "next_room (update_client c f s) = next_room s"
  "next_client (update_client c f s) = next_client s"
  "colorIndex (update_client c f s) = colorIndex s"
  "randSeed (update_client c f s) = randSeed s"
  "log_lines (update_client c f s) = log_lines s"
  by (simp_all add: update_client_def)

lemma update_room_simps [simp]:
  "rooms (update_room r f s) = (rooms s)(r := f (rooms s r))"
  "clients (update_room r f s) = clients s"
  "hub_Rooms (update_room r f s) = hub_Rooms s"
  "next_room (update_room r f s) = next_room s"
  "next_client (update_room r f s) = next_client s"
  "colorIndex (update_room r f s) = colorIndex s"
  "randSeed (update_room r f s) = randSeed s"
  "log_lines (update_room r f s) = log_lines s"
  by (simp_all add: update_room_def)

lemma deliver_simps [simp]:
  "clients (deliver msg P s) = (\<lambda>p. if P p then enq msg (clients s p) else clients s p)"
  "rooms (deliver msg P s) = rooms s"
  "hub_Rooms (deliver msg P s) = hub_Rooms s"
  "next_room (deliver msg P s) = next_room s"
  "next_client (deliver msg P s) = next_client s"
  "colorIndex (deliver msg P s) = colorIndex s"
  "randSeed (deliver msg P s) = randSeed s"
  "log_lines (deliver msg P s) = log_lines s"
  by (simp_all add: deliver_def)

lemma log_Printf_simps [simp]:
  "clients (log_Printf l s) = clients s"
  "rooms (log_Printf l s) = rooms s"
  "hub_Rooms (log_Printf l s) = hub_Rooms s"
  "next_room (log_Printf l s) = next_room s"
  "next_client (log_Printf l s) = next_client s"
  "colorIndex (log_Printf l s) = colorIndex s"
  "randSeed (log_Printf l s) = randSeed s"
  "log_lines (log_Printf l s) = log_lines s @ [l]"
  by (simp_all add: log_Printf_def)

lemma send_locked_eq:
  "send_locked msg p s = (if sendable (clients s p) then Some (update_client p (enq msg) s) else None)"
  by (auto simp: send_locked_def sendable_def enq_def chan_try_send_def update_client_def)

lemma Broadcast_range_eq:
  "distinct ps \<Longrightarrow>
   Broadcast_range msg sender ps s =
     (if \<forall>p \<in> set ps. p \<noteq> sender \<longrightarrow> sendable (clients s p)
      then Some (deliver msg (\<lambda>p. p \<in> set ps \<and> p \<noteq> sender) s) else None)"
proof (induction ps arbitrary: s)
  case Nil
  show ?case by (simp add: deliver_def)
next
  case (Cons a ps)
  then have d: "distinct ps" and a: "a \<notin> set ps" by simp_all
  show ?case
  proof (cases "a = sender")
    case True
    then have "(\<lambda>p. (p = sender \<or> p \<in> set ps) \<and> p \<noteq> sender) = (\<lambda>p. p \<in> set ps \<and> p \<noteq> sender)"
      by auto
    with True show ?thesis
      using Cons.IH [OF d, of s] by auto
  next
    case False
    show ?thesis
    proof (cases "sendable (clients s a)")
      case False
      with \<open>a \<noteq> sender\<close> show ?thesis by (auto simp: send_locked_eq)
    next
      case True
      let ?s1 = "update_client a (enq msg) s"
      have same: "\<And>p. p \<in> set ps \<Longrightarrow> clients ?s1 p = clients s p"
        using a by auto
      have st: "deliver msg (\<lambda>p. p \<in> set ps \<and> p \<noteq> sender) ?s1
                = deliver msg (\<lambda>p. p \<in> set (a # ps) \<and> p \<noteq> sender) s"
        using a \<open>a \<noteq> sender\<close> by (auto simp: deliver_def update_client_def fun_eq_iff)
      have "Broadcast_range msg sender (a # ps) s = Broadcast_range msg sender ps ?s1"
        using True \<open>a \<noteq> sender\<close> by (simp add: send_locked_eq)
      also have "\<dots> = (if \<forall>p \<in> set ps. p \<noteq> sender \<longrightarrow> sendable (clients ?s1 p)
            then Some (deliver msg (\<lambda>p. p \<in> set ps \<and> p \<noteq> sender) ?s1) else None)"
        by (rule Cons.IH [OF d])
      also have "\<dots> = (if \<forall>p \<in> set (a # ps). p \<noteq> sender \<longrightarrow> sendable (clients s p)
            then Some (deliver msg (\<lambda>p. p \<in> set (a # ps) \<and> p \<noteq> sender) s) else None)"
        using True same st by auto
      finally show ?thesis .
    qed
  qed
qed

lemma BroadcastToAll_range_eq:
  "distinct ps \<Longrightarrow>
   BroadcastToAll_range msg ps s =
     (if \<forall>p \<in> set ps. sendable (clients s p)
      then Some (deliver msg (\<lambda>p. p \<in> set ps) s) else None)"
proof (induction ps arbitrary: s)
  case Nil
  show ?case by (simp add: deliver_def)
next
  case (Cons a ps)
  then have d: "distinct ps" and a: "a \<notin> set ps" by simp_all
  show ?case
  proof (cases "sendable (clients s a)")
    case False
    then show ?thesis by (auto simp: send_locked_eq)
  next
    case True
    let ?s1 = "update_client a (enq msg) s"
    have same: "\<And>p. p \<in> set ps \<Longrightarrow> clients ?s1 p = clients s p"
      using a by auto
    have st: "deliver msg (\<lambda>p. p \<in> set ps) ?s1 = deliver msg (\<lambda>p. p \<in> set (a # ps)) s"
      using a by (auto simp: deliver_def update_client_def fun_eq_iff)
    have "BroadcastToAll_range msg (a # ps) s = BroadcastToAll_range msg ps ?s1"
      using True by (simp add: send_locked_eq)
    also have "\<dots> = (if \<forall>p \<in> set ps. sendable (clients ?s1 p)
          then Some (deliver msg (\<lambda>p. p \<in> set ps) ?s1) else None)"
      by (rule Cons.IH [OF d])
    also have "\<dots> = (if \<forall>p \<in> set (a # ps). sendable (clients s p)
          then Some (deliver msg (\<lambda>p. p \<in> set (a # ps)) s) else None)"
      using True same st by auto
    finally show ?thesis .
  qed
qed

lemma Broadcast_eq:
  "Broadcast r msg sender s =
     (if \<forall>p \<in> set (members r s). p \<noteq> sender \<longrightarrow> sendable (clients s p)
      then Some (deliver msg (\<lambda>p. p \<in> set (members r s) \<and> p \<noteq> sender) s) else None)"
  unfolding Broadcast_def members_def by (rule Broadcast_range_eq) simp

lemma BroadcastToAll_eq:
  "BroadcastToAll r msg s =
     (if \<forall>p \<in> set (members r s). sendable (clients s p)
      then Some (deliver msg (\<lambda>p. p \<in> set (members r s)) s) else None)"
  unfolding BroadcastToAll_def members_def by (rule BroadcastToAll_range_eq) simp

lemma Send_buf_deliver:
  "Send_buf p (deliver msg P s) =
     (if P p \<and> \<not> cl_closed (clients s p) \<and> length (Send_buf p s) < ch_cap (cl_Send (clients s p))
      then Send_buf p s @ [msg] else Send_buf p s)"
  by (simp add: Send_buf_def enq_def)

lemma members_AddElement [simp]: "members r (AddElement r' e s) = members r s"
  by (simp add: members_def AddElement_def)

lemma members_ClearElements [simp]: "members r (ClearElements r' s) = members r s"
  by (simp add: members_def ClearElements_def)

lemma clients_AddElement [simp]: "clients (AddElement r e s) = clients s"
  by (simp add: AddElement_def)

lemma clients_ClearElements [simp]: "clients (ClearElements r s) = clients s"
  by (simp add: ClearElements_def)

lemma Send_buf_AddElement [simp]: "Send_buf p (AddElement r e s) = Send_buf p s"
  by (simp add: Send_buf_def)

lemma Send_buf_ClearElements [simp]: "Send_buf p (ClearElements r s) = Send_buf p s"
  by (simp add: Send_buf_def)

lemma readPump_message_decoded:
  "unmarshal_Message b = Some m \<Longrightarrow>
   readPump_message c b s =
     (if msg_Type m = TypeDraw then
        (case unmarshal_DrawElement (marshal_value (msg_Data m)) of
           Some element \<Rightarrow>
             Broadcast (cl_Room (clients s c))
               (marshal_Message
                  \<lparr>msg_Type = TypeDraw, msg_UserID = cl_ID (clients s c),
                   msg_Data = VElement (element\<lparr>el_UserID := cl_ID (clients s c)\<rparr>)\<rparr>)
               c (AddElement (cl_Room (clients s c)) (element\<lparr>el_UserID := cl_ID (clients s c)\<rparr>) s)
         | None \<Rightarrow>
             Broadcast (cl_Room (clients s c))
               (marshal_Message (m\<lparr>msg_UserID := cl_ID (clients s c)\<rparr>)) c s)
      else if msg_Type m = TypeCursor then
        Broadcast (cl_Room (clients s c)) (marshal_Message (m\<lparr>msg_UserID := cl_ID (clients s c)\<rparr>)) c s
      else if msg_Type m = TypeClear then
        BroadcastToAll (cl_Room (clients s c))
          (marshal_Message (m\<lparr>msg_UserID := cl_ID (clients s c)\<rparr>))
          (ClearElements (cl_Room (clients s c)) s)
      else Some s)"
  by (cases m) (simp add: readPump_message_def readPump_draw_def Let_def split: option.splits)

lemma Send_buf_deliver_frame:
  "clients s0 = clients s \<Longrightarrow>
   Send_buf p (deliver msg P s0) =
     (if P p \<and> \<not> cl_closed (clients s p) \<and> length (Send_buf p s) < ch_cap (cl_Send (clients s p))
      then Send_buf p s @ [msg] else Send_buf p s)"
  by (simp add: Send_buf_def enq_def)

lemma Type_distinct:
  "TypeDraw \<noteq> TypeClear" "TypeCursor \<noteq> TypeClear" "TypeDraw \<noteq> TypeCursor"
  "TypeClear \<noteq> TypeDraw" "TypeClear \<noteq> TypeCursor" "TypeCursor \<noteq> TypeDraw"
  by (simp_all add: TypeDraw_def TypeClear_def TypeCursor_def)

lemma readPump_message_delivers:
  assumes dec: "unmarshal_Message b = Some m"
    and ty: "msg_Type m = TypeDraw \<or> msg_Type m = TypeCursor \<or> msg_Type m = TypeClear"
    and ok: "\<forall>p \<in> set (members (cl_Room (clients s c)) s). sendable (clients s p)"
  shows "\<exists>payload s0. clients s0 = clients s \<and>
           readPump_message c b s =
             Some (deliver payload
                     (\<lambda>p. p \<in> set (members (cl_Room (clients s c)) s)
                           \<and> (p \<noteq> c \<or> msg_Type m = TypeClear)) s0)"
proof -
  let ?r = "cl_Room (clients s c)"
  let ?id = "cl_ID (clients s c)"
  let ?msg = "m\<lparr>msg_UserID := ?id\<rparr>"
  from ty consider (draw) "msg_Type m = TypeDraw" | (cursor) "msg_Type m = TypeCursor"
    | (clear) "msg_Type m = TypeClear" by blast
  then show ?thesis
  proof cases
    case draw
    show ?thesis
    proof (cases "unmarshal_DrawElement (marshal_value (msg_Data m))")
      case None
      have "readPump_message c b s
            = Some (deliver (marshal_Message ?msg) (\<lambda>p. p \<in> set (members ?r s) \<and> (p \<noteq> c \<or> msg_Type m = TypeClear)) s)"
        using draw dec ok None
        by (simp add: readPump_message_decoded Broadcast_eq Type_distinct)
      then show ?thesis by blast
    next
      case (Some e)
      let ?e = "e\<lparr>el_UserID := ?id\<rparr>"
      have "readPump_message c b s
            = Some (deliver (marshal_Message \<lparr>msg_Type = TypeDraw, msg_UserID = ?id, msg_Data = VElement ?e\<rparr>)
                      (\<lambda>p. p \<in> set (members ?r s) \<and> (p \<noteq> c \<or> msg_Type m = TypeClear))
                      (AddElement ?r ?e s))"
        using draw dec ok Some
        by (simp add: readPump_message_decoded Broadcast_eq Type_distinct)
      moreover have "clients (AddElement ?r ?e s) = clients s" by simp
      ultimately show ?thesis by blast
    qed
  next
    case cursor
    have "readPump_message c b s
          = Some (deliver (marshal_Message ?msg) (\<lambda>p. p \<in> set (members ?r s) \<and> (p \<noteq> c \<or> msg_Type m = TypeClear)) s)"
      using cursor dec ok
      by (simp add: readPump_message_decoded Broadcast_eq Type_distinct)
    then show ?thesis by blast
  next
    case clear
    have "readPump_message c b s
          = Some (deliver (marshal_Message ?msg) (\<lambda>p. p \<in> set (members ?r s) \<and> (p \<noteq> c \<or> msg_Type m = TypeClear))
                   (ClearElements ?r s))"
      using clear dec ok
      by (simp add: readPump_message_decoded BroadcastToAll_eq Type_distinct)
    moreover have "clients (ClearElements ?r s) = clients s" by simp
    ultimately show ?thesis by blast
  qed
qed

lemma unmarshal_ex_cursor:
  "unmarshal_Message ex_cursor
     = Some \<lparr>msg_Type = ''cursor'', msg_UserID = ''mallory'', msg_Data = VJson JNull\<rparr>"
  by (simp add: ex_cursor_def unmarshal_Message_def Message_member_def decode_string_def
      fold_byte_def zero_Message_def)

lemma members_ex_state: "members 0 ex_state = [1, 0]"
  by (simp add: members_def ex_state_def)

lemma ex_state_clients:
  "clients ex_state 0 = new_Client ''A'' 0 ''#e74c3c''"
  "clients ex_state 1 = new_Client ''B'' 0 ''#3498db''"
  "clients ex_state (Suc 0) = new_Client ''B'' 0 ''#3498db''"
  by (simp_all add: ex_state_def)

text \<open>
  C4 (as amended).  For an inbound message of type draw or cursor, the broadcast
  appends one payload to the queue of every member of the sender's room other than
  the sender, provided the member is not closing and its queue has room, and leaves
  every other queue as it is, the sender's included; for an inbound clear the same
  holds with the sender among the receivers.  A member that is closing or whose queue
  is full is passed over.
\<close>

theorem broadcast_exclusion:
  assumes dec: "unmarshal_Message b = Some m"
    and ty: "msg_Type m = TypeDraw \<or> msg_Type m = TypeCursor \<or> msg_Type m = TypeClear"
    and ok: "\<forall>p \<in> set (members (cl_Room (clients s c)) s). sendable (clients s p)"
  shows "\<exists>s' payload. readPump_message c b s = Some s' \<and>
           (\<forall>p. Send_buf p s' =
              (if p \<in> set (members (cl_Room (clients s c)) s)
                  \<and> (p \<noteq> c \<or> msg_Type m = TypeClear)
                  \<and> \<not> cl_closed (clients s p)
                  \<and> length (Send_buf p s) < ch_cap (cl_Send (clients s p))
               then Send_buf p s @ [payload] else Send_buf p s))"
proof -
  obtain payload s0 where s0: "clients s0 = clients s"
    and run: "readPump_message c b s =
             Some (deliver payload
                     (\<lambda>p. p \<in> set (members (cl_Room (clients s c)) s)
                           \<and> (p \<noteq> c \<or> msg_Type m = TypeClear)) s0)"
    using readPump_message_delivers [OF dec ty ok] by blast
  show ?thesis
    unfolding run using Send_buf_deliver_frame [OF s0] by (intro exI conjI allI) (rule refl, simp)
qed

text \<open>The theorem at the example: A sends a cursor message, B receives it, A does not.\<close>

theorem broadcast_exclusion_witness:
  "unmarshal_Message ex_cursor
     = Some \<lparr>msg_Type = ''cursor'', msg_UserID = ''mallory'', msg_Data = VJson JNull\<rparr>
   \<and> members (cl_Room (clients ex_state 0)) ex_state = [1, 0]
   \<and> sendable (clients ex_state 1) \<and> sendable (clients ex_state 0)
   \<and> (\<exists>s' payload. readPump_message 0 ex_cursor ex_state = Some s'
         \<and> Send_buf 0 s' = [] \<and> Send_buf 1 s' = [payload])"
proof -
  have dec: "unmarshal_Message ex_cursor
     = Some \<lparr>msg_Type = ''cursor'', msg_UserID = ''mallory'', msg_Data = VJson JNull\<rparr>"
    by (rule unmarshal_ex_cursor)
  have ty: "msg_Type \<lparr>msg_Type = ''cursor'', msg_UserID = ''mallory'', msg_Data = VJson JNull\<rparr> = TypeDraw
     \<or> msg_Type \<lparr>msg_Type = ''cursor'', msg_UserID = ''mallory'', msg_Data = VJson JNull\<rparr> = TypeCursor
     \<or> msg_Type \<lparr>msg_Type = ''cursor'', msg_UserID = ''mallory'', msg_Data = VJson JNull\<rparr> = TypeClear"
    by (simp add: TypeCursor_def)
  have ok: "\<forall>p \<in> set (members (cl_Room (clients ex_state 0)) ex_state). sendable (clients ex_state p)"
    by (simp add: ex_state_clients new_Client_def members_ex_state sendable_def make_chan_def)
  obtain s' payload where run: "readPump_message 0 ex_cursor ex_state = Some s'"
    and q: "\<forall>p. Send_buf p s' =
              (if p \<in> set (members (cl_Room (clients ex_state 0)) ex_state)
                  \<and> (p \<noteq> 0 \<or> msg_Type \<lparr>msg_Type = ''cursor'', msg_UserID = ''mallory'', msg_Data = VJson JNull\<rparr> = TypeClear)
                  \<and> \<not> cl_closed (clients ex_state p)
                  \<and> length (Send_buf p ex_state) < ch_cap (cl_Send (clients ex_state p))
               then Send_buf p ex_state @ [payload] else Send_buf p ex_state)"
    using broadcast_exclusion [OF dec ty ok] by blast
  have "Send_buf 0 s' = []"
    using q [rule_format, of 0]
    by (simp add: ex_state_clients new_Client_def members_ex_state Send_buf_def make_chan_def TypeClear_def)
  moreover have "Send_buf 1 s' = [payload]"
    using q [rule_format, of 1]
    by (simp add: ex_state_clients new_Client_def members_ex_state Send_buf_def make_chan_def)
  moreover have "members (cl_Room (clients ex_state 0)) ex_state = [1, 0]"
    by (simp add: ex_state_clients new_Client_def members_ex_state)
  moreover have "sendable (clients ex_state 1)" "sendable (clients ex_state 0)"
    by (simp_all add: ex_state_clients new_Client_def sendable_def make_chan_def)
  ultimately show ?thesis using dec run by blast
qed

text \<open>
  The claim as stated fails where a queue is full: B is a member, is not closing and
  has 256 payloads queued; the cursor message of A and the clear message of A are not
  enqueued on the queue of B (the clear message reaches A itself).
\<close>

theorem full_queue_not_enqueued:
  "members (cl_Room (clients ex_full_state 0)) ex_full_state = [1, 0]
   \<and> \<not> cl_closed (clients ex_full_state 1)
   \<and> length (Send_buf 1 ex_full_state) = 256
   \<and> map_option (Send_buf 1) (readPump_message 0 ex_cursor ex_full_state)
       = Some (Send_buf 1 ex_full_state)
   \<and> map_option (Send_buf 0) (readPump_message 0 ex_clear ex_full_state)
       = Some [JObj [(''type'', JStr ''clear''), (''userId'', JStr ''A'')]]
   \<and> map_option (Send_buf 1) (readPump_message 0 ex_clear ex_full_state)
       = Some (Send_buf 1 ex_full_state)"
  by code_simp


section \<open>What an inbound message does\<close>

text \<open>Decoding at the literal keys of the two structs, and the example messages.\<close>

lemma foldName_literals:
  "foldName ''type'' = ''TYPE''" "foldName ''userId'' = ''USERID''" "foldName ''data'' = ''DATA''"
  by code_simp+

lemma Message_member_literals:
  "Message_member (''type'', v) (m, ok) =
     (m\<lparr>msg_Type := fst (decode_string v (msg_Type m))\<rparr>, ok \<and> snd (decode_string v (msg_Type m)))"
  "Message_member (''userId'', v) (m, ok) =
     (m\<lparr>msg_UserID := fst (decode_string v (msg_UserID m))\<rparr>,
      ok \<and> snd (decode_string v (msg_UserID m)))"
  "Message_member (''data'', v) (m, ok) = (m\<lparr>msg_Data := VJson (to_interface v)\<rparr>, ok)"
  by (simp_all add: Message_member_def Let_def fold_byte_def)

lemma DrawElement_member_literals:
  "DrawElement_member (''id'', v) (e, ok) =
     (e\<lparr>el_ID := fst (decode_string v (el_ID e))\<rparr>, ok \<and> snd (decode_string v (el_ID e)))"
  "DrawElement_member (''elementType'', v) (e, ok) =
     (e\<lparr>el_Type := fst (decode_string v (el_Type e))\<rparr>, ok \<and> snd (decode_string v (el_Type e)))"
  "DrawElement_member (''x1'', v) (e, ok) =
     (e\<lparr>el_X1 := fst (decode_float64 v (el_X1 e))\<rparr>, ok \<and> snd (decode_float64 v (el_X1 e)))"
  "DrawElement_member (''y1'', v) (e, ok) =
     (e\<lparr>el_Y1 := fst (decode_float64 v (el_Y1 e))\<rparr>, ok \<and> snd (decode_float64 v (el_Y1 e)))"
  "DrawElement_member (''x2'', v) (e, ok) =
     (e\<lparr>el_X2 := fst (decode_float64 v (el_X2 e))\<rparr>, ok \<and> snd (decode_float64 v (el_X2 e)))"
  "DrawElement_member (''y2'', v) (e, ok) =
     (e\<lparr>el_Y2 := fst (decode_float64 v (el_Y2 e))\<rparr>, ok \<and> snd (decode_float64 v (el_Y2 e)))"
  "DrawElement_member (''strokeColor'', v) (e, ok) =
     (e\<lparr>el_StrokeColor := fst (decode_string v (el_StrokeColor e))\<rparr>,
      ok \<and> snd (decode_string v (el_StrokeColor e)))"
  "DrawElement_member (''strokeWidth'', v) (e, ok) =
     (e\<lparr>el_StrokeWidth := fst (decode_float64 v (el_StrokeWidth e))\<rparr>,
      ok \<and> snd (decode_float64 v (el_StrokeWidth e)))"
  "DrawElement_member (''userId'', v) (e, ok) =
     (e\<lparr>el_UserID := fst (decode_string v (el_UserID e))\<rparr>,
      ok \<and> snd (decode_string v (el_UserID e)))"
  by (simp_all add: DrawElement_member_def Let_def fold_byte_def)

lemma unmarshal_ex_draw: "unmarshal_Message (ex_draw u) = Some (ex_draw_Message u)"
  by (simp add: ex_draw_def ex_draw_Message_def unmarshal_Message_def Message_member_literals
      decode_string_def zero_Message_def to_map_def Let_def)

lemma unmarshal_ex_draw_element: "unmarshal_DrawElement (marshal_value (msg_Data (ex_draw_Message u)))
       = Some (ex_element\<lparr>el_UserID := u\<rparr>)"
  by (simp add: ex_draw_Message_def unmarshal_DrawElement_def DrawElement_member_literals
      decode_string_def decode_float64_def Let_def
      zero_DrawElement_def ex_element_def less_eq_char_def less_char_def)

lemma unmarshal_ex_sync:
  "unmarshal_Message ex_sync
     = Some \<lparr>msg_Type = ''sync'', msg_UserID = [],
             msg_Data = VJson (JObj [(''elements'', JArr [])])\<rparr>"
  by (simp add: ex_sync_def unmarshal_Message_def Message_member_def decode_string_def
      fold_byte_def zero_Message_def to_map_def)

lemma unmarshal_ex_string_draw:
  "unmarshal_Message ex_string_draw
     = Some \<lparr>msg_Type = ''draw'', msg_UserID = [], msg_Data = VJson (JStr ''scribble'')\<rparr>"
  by (simp add: ex_string_draw_def unmarshal_Message_def Message_member_def decode_string_def
      fold_byte_def zero_Message_def)

lemma Message_member_same:
  "same_but_UserID a a' \<Longrightarrow> same_but_UserID (Message_member kv a) (Message_member kv a')"
  by (cases "snd kv")
     (auto simp: same_but_UserID_def Message_member_def Let_def decode_string_def foldName_literals)

lemma fold_Message_member_same:
  "same_but_UserID a a' \<Longrightarrow>
   same_but_UserID (fold Message_member kvs a) (fold Message_member kvs a')"
  by (induction kvs arbitrary: a a') (simp_all add: Message_member_same)

lemma Message_member_userId:
  "foldName k = foldName ''userId'' \<Longrightarrow>
   same_but_UserID (Message_member (k, JStr u) a) (Message_member (k, JStr u') a)"
  by (simp add: same_but_UserID_def Message_member_def Let_def decode_string_def foldName_literals)

lemma readPump_message_same:
  assumes "unmarshal_Message b = Some m" and "unmarshal_Message b' = Some m'"
    and "msg_Type m' = msg_Type m" and "msg_Data m' = msg_Data m"
  shows "readPump_message c b' s = readPump_message c b s"
  using assms by (cases m, cases m') (simp add: readPump_message_def Let_def)

lemma unmarshal_Message_obj:
  "unmarshal_Message (Some (JObj kvs)) =
     (if snd (fold Message_member kvs (zero_Message, True))
      then Some (fst (fold Message_member kvs (zero_Message, True))) else None)"
  by (simp add: unmarshal_Message_def Let_def)

lemma readPump_message_wire_userId:
  assumes "foldName k = foldName ''userId''"
  shows "readPump_message c (Some (JObj (pre @ (k, JStr u') # post))) s
         = readPump_message c (Some (JObj (pre @ (k, JStr u) # post))) s"
proof -
  let ?a = "fold Message_member pre (zero_Message, True)"
  let ?r = "\<lambda>x. fold Message_member post (Message_member (k, JStr x) ?a)"
  have rel: "same_but_UserID (?r u') (?r u)"
    by (rule fold_Message_member_same) (rule Message_member_userId [OF assms])
  have dec: "\<And>x. unmarshal_Message (Some (JObj (pre @ (k, JStr x) # post)))
                 = (if snd (?r x) then Some (fst (?r x)) else None)"
    by (simp add: unmarshal_Message_obj)
  show ?thesis
  proof (cases "snd (?r u)")
    case True
    then have t': "snd (?r u')" using rel by (simp add: same_but_UserID_def)
    have 1: "unmarshal_Message (Some (JObj (pre @ (k, JStr u) # post))) = Some (fst (?r u))"
      using True by (simp only: dec if_True)
    have 2: "unmarshal_Message (Some (JObj (pre @ (k, JStr u') # post))) = Some (fst (?r u'))"
      using t' by (simp only: dec if_True)
    show ?thesis
      using rel by (intro readPump_message_same [OF 1 2]) (simp_all add: same_but_UserID_def)
  next
    case False
    then have f': "\<not> snd (?r u')" using rel by (simp add: same_but_UserID_def)
    have 1: "unmarshal_Message (Some (JObj (pre @ (k, JStr u) # post))) = None"
      using False by (simp only: dec if_False)
    have 2: "unmarshal_Message (Some (JObj (pre @ (k, JStr u') # post))) = None"
      using f' by (simp only: dec if_False)
    show ?thesis
      unfolding readPump_message_def 1 2 by simp
  qed
qed


lemma rooms_Broadcast:
  "Broadcast r msg sender s = Some s' \<Longrightarrow> rooms s' = rooms s"
  by (auto simp: Broadcast_eq split: if_splits)

lemma Message_update_UserID:
  "m\<lparr>msg_UserID := x\<rparr> = \<lparr>msg_Type = msg_Type m, msg_UserID = x, msg_Data = msg_Data m\<rparr>"
  by (cases m) simp

lemma readPump_message_explicit:
  assumes "unmarshal_Message b = Some m"
  shows "readPump_message c b s =
        (if msg_Type m = TypeDraw then
           (case unmarshal_DrawElement (marshal_value (msg_Data m)) of
              Some element \<Rightarrow>
                Broadcast (cl_Room (clients s c))
                  (marshal_Message
                     \<lparr>msg_Type = TypeDraw, msg_UserID = cl_ID (clients s c),
                      msg_Data = VElement (element\<lparr>el_UserID := cl_ID (clients s c)\<rparr>)\<rparr>)
                  c (AddElement (cl_Room (clients s c))
                       (element\<lparr>el_UserID := cl_ID (clients s c)\<rparr>) s)
            | None \<Rightarrow>
                Broadcast (cl_Room (clients s c))
                  (marshal_Message
                     \<lparr>msg_Type = TypeDraw, msg_UserID = cl_ID (clients s c),
                      msg_Data = msg_Data m\<rparr>) c s)
         else if msg_Type m = TypeCursor then
           Broadcast (cl_Room (clients s c))
             (marshal_Message
                \<lparr>msg_Type = TypeCursor, msg_UserID = cl_ID (clients s c),
                 msg_Data = msg_Data m\<rparr>) c s
         else if msg_Type m = TypeClear then
           BroadcastToAll (cl_Room (clients s c))
             (marshal_Message
                \<lparr>msg_Type = TypeClear, msg_UserID = cl_ID (clients s c),
                 msg_Data = msg_Data m\<rparr>)
             (ClearElements (cl_Room (clients s c)) s)
         else Some s)"
  unfolding readPump_message_decoded [OF assms] Message_update_UserID
  by (simp split: option.splits)

text \<open>
  C8.  An inbound envelope that decodes and whose type is not draw, cursor or clear
  (the tags sync, join, leave and userlist that only the server sends are among these,
  as is any unknown tag) leaves the whole state as it is: the log of elements and the
  members of every room, every queue, the connection, which stays open; the loop of
  \<open>readPump\<close> goes on with the next message.
\<close>

theorem other_types_ignored:
  assumes "unmarshal_Message b = Some m"
    and "msg_Type m \<noteq> TypeDraw" and "msg_Type m \<noteq> TypeCursor" and "msg_Type m \<noteq> TypeClear"
  shows "readPump_message c b s = Some s
         \<and> readPump c (ReadOk b # rest) s = readPump c rest s
         \<and> set [TypeSync, TypeJoin, TypeLeave, TypeUserList]
             \<inter> set [TypeDraw, TypeCursor, TypeClear] = {}"
proof -
  have 1: "readPump_message c b s = Some s"
    using assms by (simp add: readPump_message_decoded)
  have 2: "set [TypeSync, TypeJoin, TypeLeave, TypeUserList]
             \<inter> set [TypeDraw, TypeCursor, TypeClear] = {}"
    by (simp add: TypeSync_def TypeJoin_def TypeLeave_def TypeUserList_def TypeDraw_def
        TypeCursor_def TypeClear_def)
  from 1 2 show ?thesis by simp
qed

text \<open>The theorem at the example: a client sends a sync message.\<close>

theorem other_types_ignored_witness:
  "unmarshal_Message ex_sync
     = Some \<lparr>msg_Type = ''sync'', msg_UserID = [],
             msg_Data = VJson (JObj [(''elements'', JArr [])])\<rparr>
   \<and> ''sync'' \<noteq> TypeDraw \<and> ''sync'' \<noteq> TypeCursor \<and> ''sync'' \<noteq> TypeClear
   \<and> readPump_message 0 ex_sync ex_state = Some ex_state
   \<and> readPump 0 [ReadOk ex_sync] ex_state = Some ex_state"
proof -
  have ty: "msg_Type \<lparr>msg_Type = ''sync'', msg_UserID = [],
             msg_Data = VJson (JObj [(''elements'', JArr [])])\<rparr> \<noteq> TypeDraw"
    "msg_Type \<lparr>msg_Type = ''sync'', msg_UserID = [],
             msg_Data = VJson (JObj [(''elements'', JArr [])])\<rparr> \<noteq> TypeCursor"
    "msg_Type \<lparr>msg_Type = ''sync'', msg_UserID = [],
             msg_Data = VJson (JObj [(''elements'', JArr [])])\<rparr> \<noteq> TypeClear"
    by (simp_all add: TypeDraw_def TypeCursor_def TypeClear_def)
  show ?thesis
    using other_types_ignored [OF unmarshal_ex_sync ty, where c = 0 and rest = "[]" and s = ex_state] ty
    by (simp add: unmarshal_ex_sync)
qed

text \<open>
  C2 (as amended).  An inbound message whose envelope does not decode is logged and
  discarded: nothing but the log changes.  A draw message whose data does not decode
  into an element appends no element, is not logged and leaves the sender's connection
  as it is, the loop going on; it is still broadcast, with the data as the client sent
  it, to the other members of the room.
\<close>

theorem malformed_message_handling:
  "(unmarshal_Message b = None \<longrightarrow>
      readPump_message c b s = Some (log_Printf LogUnmarshalError s)
      \<and> readPump c (ReadOk b # rest) s = readPump c rest (log_Printf LogUnmarshalError s))
   \<and> (unmarshal_Message b = Some m \<and> msg_Type m = TypeDraw
        \<and> unmarshal_DrawElement (marshal_value (msg_Data m)) = None
        \<and> (\<forall>p \<in> set (members (cl_Room (clients s c)) s). p \<noteq> c \<longrightarrow> sendable (clients s p)) \<longrightarrow>
      (\<exists>s'. readPump_message c b s = Some s'
         \<and> s' = deliver (marshal_Message (m\<lparr>msg_UserID := cl_ID (clients s c)\<rparr>))
                  (\<lambda>p. p \<in> set (members (cl_Room (clients s c)) s) \<and> p \<noteq> c) s
         \<and> rooms s' = rooms s \<and> log_lines s' = log_lines s \<and> clients s' c = clients s c
         \<and> readPump c (ReadOk b # rest) s = readPump c rest s'))"
proof (rule conjI; rule impI)
  assume "unmarshal_Message b = None"
  then show "readPump_message c b s = Some (log_Printf LogUnmarshalError s)
      \<and> readPump c (ReadOk b # rest) s = readPump c rest (log_Printf LogUnmarshalError s)"
    by (simp add: readPump_message_def)
next
  assume a: "unmarshal_Message b = Some m \<and> msg_Type m = TypeDraw
        \<and> unmarshal_DrawElement (marshal_value (msg_Data m)) = None
        \<and> (\<forall>p \<in> set (members (cl_Room (clients s c)) s). p \<noteq> c \<longrightarrow> sendable (clients s p))"
  let ?s' = "deliver (marshal_Message (m\<lparr>msg_UserID := cl_ID (clients s c)\<rparr>))
                  (\<lambda>p. p \<in> set (members (cl_Room (clients s c)) s) \<and> p \<noteq> c) s"
  have run: "readPump_message c b s = Some ?s'"
    using a by (simp add: readPump_message_decoded Broadcast_eq)
  have "rooms ?s' = rooms s" "log_lines ?s' = log_lines s" "clients ?s' c = clients s c"
    by simp_all
  with run show "\<exists>s'. readPump_message c b s = Some s'
         \<and> s' = ?s'
         \<and> rooms s' = rooms s \<and> log_lines s' = log_lines s \<and> clients s' c = clients s c
         \<and> readPump c (ReadOk b # rest) s = readPump c rest s'"
    by simp
qed

text \<open>The theorem at the examples: bytes that are no JSON text, and a draw of a string.\<close>

theorem malformed_message_handling_witness:
  "unmarshal_Message None = None
   \<and> readPump_message 0 None ex_state = Some (log_Printf LogUnmarshalError ex_state)
   \<and> unmarshal_Message ex_string_draw
       = Some \<lparr>msg_Type = ''draw'', msg_UserID = [], msg_Data = VJson (JStr ''scribble'')\<rparr>
   \<and> unmarshal_DrawElement (marshal_value (VJson (JStr ''scribble''))) = None
   \<and> members (cl_Room (clients ex_state 0)) ex_state = [1, 0]
   \<and> sendable (clients ex_state 1)
   \<and> (\<exists>s'. readPump_message 0 ex_string_draw ex_state = Some s'
         \<and> rooms s' = rooms ex_state \<and> log_lines s' = log_lines ex_state
         \<and> clients s' 0 = clients ex_state 0)"
proof -
  have n: "unmarshal_Message None = None" by (simp add: unmarshal_Message_def)
  have e: "unmarshal_DrawElement (marshal_value (VJson (JStr ''scribble''))) = None"
    by (simp add: unmarshal_DrawElement_def)
  have ok: "\<forall>p \<in> set (members (cl_Room (clients ex_state 0)) ex_state).
         p \<noteq> 0 \<longrightarrow> sendable (clients ex_state p)"
    by (simp add: ex_state_clients new_Client_def members_ex_state sendable_def make_chan_def)
  have mem: "members (cl_Room (clients ex_state 0)) ex_state = [1, 0]"
    by (simp add: ex_state_clients new_Client_def members_ex_state)
  have sb: "sendable (clients ex_state 1)"
    by (simp add: ex_state_clients new_Client_def sendable_def make_chan_def)
  show ?thesis
    using mem sb malformed_message_handling [where b = None and c = 0 and s = ex_state] n
      malformed_message_handling [where b = ex_string_draw and c = 0 and s = ex_state
        and rest = "[]"
        and m = "\<lparr>msg_Type = ''draw'', msg_UserID = [], msg_Data = VJson (JStr ''scribble'')\<rparr>"]
      unmarshal_ex_string_draw e ok
    by (simp add: TypeDraw_def)
qed

text \<open>
  The claim as stated fails for the draw message whose data is a string: the data is no
  element, and yet B receives the message; nothing is logged.
\<close>

theorem malformed_draw_is_broadcast:
  "unmarshal_DrawElement (marshal_value (VJson (JStr ''scribble''))) = None
   \<and> Send_buf 1 ex_state = []
   \<and> map_option (Send_buf 1) (readPump_message 0 ex_string_draw ex_state)
       = Some [JObj [(''type'', JStr ''draw''), (''userId'', JStr ''A''),
                     (''data'', JStr ''scribble'')]]
   \<and> map_option log_lines (readPump_message 0 ex_string_draw ex_state) = Some []"
  by code_simp

text \<open>
  C1 (as amended).  The \<open>userId\<close> of the wire envelope has no effect: two inbound
  objects that differ only in the string given for \<open>userId\<close> are handled alike, and
  so are two messages whose decoded envelopes agree on type and data, or, for a draw,
  whose data decode into elements that differ only in their \<open>userId\<close>.  Every payload
  that is broadcast carries the id of the receiving connection as its \<open>userId\<close>, and
  for a draw whose data decodes into an element the element stored and the element
  broadcast carry that id too.  Nothing is said of the data of a draw that does not
  decode into an element.
\<close>

theorem wire_userId_overwritten:
  "(foldName k = foldName ''userId'' \<longrightarrow>
      readPump_message c (Some (JObj (pre @ (k, JStr u') # post))) s
      = readPump_message c (Some (JObj (pre @ (k, JStr u) # post))) s)
   \<and> (unmarshal_Message b = Some m \<and> unmarshal_Message b' = Some m'
        \<and> msg_Type m' = msg_Type m
        \<and> (msg_Data m' = msg_Data m
            \<or> msg_Type m = TypeDraw
              \<and> unmarshal_DrawElement (marshal_value (msg_Data m)) = Some e
              \<and> unmarshal_DrawElement (marshal_value (msg_Data m')) = Some (e\<lparr>el_UserID := w\<rparr>)) \<longrightarrow>
      readPump_message c b' s = readPump_message c b s)
   \<and> (unmarshal_Message b = Some m \<longrightarrow>
      readPump_message c b s =
        (if msg_Type m = TypeDraw then
           (case unmarshal_DrawElement (marshal_value (msg_Data m)) of
              Some element \<Rightarrow>
                Broadcast (cl_Room (clients s c))
                  (marshal_Message
                     \<lparr>msg_Type = TypeDraw, msg_UserID = cl_ID (clients s c),
                      msg_Data = VElement (element\<lparr>el_UserID := cl_ID (clients s c)\<rparr>)\<rparr>)
                  c (AddElement (cl_Room (clients s c))
                       (element\<lparr>el_UserID := cl_ID (clients s c)\<rparr>) s)
            | None \<Rightarrow>
                Broadcast (cl_Room (clients s c))
                  (marshal_Message
                     \<lparr>msg_Type = TypeDraw, msg_UserID = cl_ID (clients s c),
                      msg_Data = msg_Data m\<rparr>) c s)
         else if msg_Type m = TypeCursor then
           Broadcast (cl_Room (clients s c))
             (marshal_Message
                \<lparr>msg_Type = TypeCursor, msg_UserID = cl_ID (clients s c),
                 msg_Data = msg_Data m\<rparr>) c s
         else if msg_Type m = TypeClear then
           BroadcastToAll (cl_Room (clients s c))
             (marshal_Message
                \<lparr>msg_Type = TypeClear, msg_UserID = cl_ID (clients s c),
                 msg_Data = msg_Data m\<rparr>)
             (ClearElements (cl_Room (clients s c)) s)
         else Some s))
   \<and> (unmarshal_Message b = Some m \<and> msg_Type m = TypeDraw
        \<and> unmarshal_DrawElement (marshal_value (msg_Data m)) = Some e
        \<and> readPump_message c b s = Some s' \<longrightarrow>
      GetElements (cl_Room (clients s c)) s'
      = GetElements (cl_Room (clients s c)) s @ [e\<lparr>el_UserID := cl_ID (clients s c)\<rparr>])"
proof (intro conjI impI)
  assume "foldName k = foldName ''userId''"
  then show "readPump_message c (Some (JObj (pre @ (k, JStr u') # post))) s
      = readPump_message c (Some (JObj (pre @ (k, JStr u) # post))) s"
    by (rule readPump_message_wire_userId)
next
  assume a: "unmarshal_Message b = Some m \<and> unmarshal_Message b' = Some m'
        \<and> msg_Type m' = msg_Type m
        \<and> (msg_Data m' = msg_Data m
            \<or> msg_Type m = TypeDraw
              \<and> unmarshal_DrawElement (marshal_value (msg_Data m)) = Some e
              \<and> unmarshal_DrawElement (marshal_value (msg_Data m')) = Some (e\<lparr>el_UserID := w\<rparr>))"
  then consider (data) "msg_Data m' = msg_Data m"
    | (elem) "msg_Type m = TypeDraw"
        "unmarshal_DrawElement (marshal_value (msg_Data m)) = Some e"
        "unmarshal_DrawElement (marshal_value (msg_Data m')) = Some (e\<lparr>el_UserID := w\<rparr>)"
    by blast
  then show "readPump_message c b' s = readPump_message c b s"
  proof cases
    case data
    from a have "unmarshal_Message b = Some m" "unmarshal_Message b' = Some m'"
      "msg_Type m' = msg_Type m" by simp_all
    then show ?thesis using data by (rule readPump_message_same)
  next
    case elem
    with a show ?thesis by (simp add: readPump_message_decoded)
  qed
next
  assume "unmarshal_Message b = Some m"
  then show "readPump_message c b s =
        (if msg_Type m = TypeDraw then
           (case unmarshal_DrawElement (marshal_value (msg_Data m)) of
              Some element \<Rightarrow>
                Broadcast (cl_Room (clients s c))
                  (marshal_Message
                     \<lparr>msg_Type = TypeDraw, msg_UserID = cl_ID (clients s c),
                      msg_Data = VElement (element\<lparr>el_UserID := cl_ID (clients s c)\<rparr>)\<rparr>)
                  c (AddElement (cl_Room (clients s c))
                       (element\<lparr>el_UserID := cl_ID (clients s c)\<rparr>) s)
            | None \<Rightarrow>
                Broadcast (cl_Room (clients s c))
                  (marshal_Message
                     \<lparr>msg_Type = TypeDraw, msg_UserID = cl_ID (clients s c),
                      msg_Data = msg_Data m\<rparr>) c s)
         else if msg_Type m = TypeCursor then
           Broadcast (cl_Room (clients s c))
             (marshal_Message
                \<lparr>msg_Type = TypeCursor, msg_UserID = cl_ID (clients s c),
                 msg_Data = msg_Data m\<rparr>) c s
         else if msg_Type m = TypeClear then
           BroadcastToAll (cl_Room (clients s c))
             (marshal_Message
                \<lparr>msg_Type = TypeClear, msg_UserID = cl_ID (clients s c),
                 msg_Data = msg_Data m\<rparr>)
             (ClearElements (cl_Room (clients s c)) s)
         else Some s)"
    by (rule readPump_message_explicit)
next
  assume a: "unmarshal_Message b = Some m \<and> msg_Type m = TypeDraw
        \<and> unmarshal_DrawElement (marshal_value (msg_Data m)) = Some e
        \<and> readPump_message c b s = Some s'"
  then have dec: "unmarshal_Message b = Some m" and ty: "msg_Type m = TypeDraw"
    and el: "unmarshal_DrawElement (marshal_value (msg_Data m)) = Some e"
    and run: "readPump_message c b s = Some s'" by simp_all
  have "readPump_message c b s = Broadcast (cl_Room (clients s c))
       (marshal_Message \<lparr>msg_Type = TypeDraw, msg_UserID = cl_ID (clients s c),
                         msg_Data = VElement (e\<lparr>el_UserID := cl_ID (clients s c)\<rparr>)\<rparr>)
       c (AddElement (cl_Room (clients s c)) (e\<lparr>el_UserID := cl_ID (clients s c)\<rparr>) s)"
    unfolding readPump_message_explicit [OF dec] using ty el by simp
  with run have "Broadcast (cl_Room (clients s c))
       (marshal_Message \<lparr>msg_Type = TypeDraw, msg_UserID = cl_ID (clients s c),
                         msg_Data = VElement (e\<lparr>el_UserID := cl_ID (clients s c)\<rparr>)\<rparr>)
       c (AddElement (cl_Room (clients s c)) (e\<lparr>el_UserID := cl_ID (clients s c)\<rparr>) s) = Some s'"
    by simp
  then have "rooms s' = rooms (AddElement (cl_Room (clients s c)) (e\<lparr>el_UserID := cl_ID (clients s c)\<rparr>) s)"
    by (rule rooms_Broadcast)
  then show "GetElements (cl_Room (clients s c)) s'
      = GetElements (cl_Room (clients s c)) s @ [e\<lparr>el_UserID := cl_ID (clients s c)\<rparr>]"
    by (simp add: GetElements_def AddElement_def)
qed

text \<open>
  The theorem at the examples: the draw messages of two authors, and two clear messages
  with different \<open>USERID\<close> members.
\<close>

theorem wire_userId_overwritten_witness:
  "unmarshal_Message (ex_draw ''bob'') = Some (ex_draw_Message ''bob'')
   \<and> unmarshal_Message (ex_draw ''mallory'') = Some (ex_draw_Message ''mallory'')
   \<and> msg_Type (ex_draw_Message ''mallory'') = msg_Type (ex_draw_Message ''bob'')
   \<and> msg_Type (ex_draw_Message ''bob'') = TypeDraw
   \<and> unmarshal_DrawElement (marshal_value (msg_Data (ex_draw_Message ''bob'')))
       = Some (ex_element\<lparr>el_UserID := ''bob''\<rparr>)
   \<and> unmarshal_DrawElement (marshal_value (msg_Data (ex_draw_Message ''mallory'')))
       = Some (ex_element\<lparr>el_UserID := ''bob'', el_UserID := ''mallory''\<rparr>)
   \<and> readPump_message 0 (ex_draw ''mallory'') ex_state
       = readPump_message 0 (ex_draw ''bob'') ex_state
   \<and> foldName ''USERID'' = foldName ''userId''
   \<and> readPump_message 0 (Some (JObj ([(''type'', JStr ''clear'')] @ (''USERID'', JStr ''mallory'') # []))) ex_state
       = readPump_message 0 (Some (JObj ([(''type'', JStr ''clear'')] @ (''USERID'', JStr ''bob'') # []))) ex_state"
proof -
  have 1: "unmarshal_Message (ex_draw ''bob'') = Some (ex_draw_Message ''bob'')"
    by (rule unmarshal_ex_draw)
  have 2: "unmarshal_Message (ex_draw ''mallory'') = Some (ex_draw_Message ''mallory'')"
    by (rule unmarshal_ex_draw)
  have 3: "msg_Type (ex_draw_Message ''mallory'') = msg_Type (ex_draw_Message ''bob'')"
    "msg_Type (ex_draw_Message ''bob'') = TypeDraw"
    by (simp_all add: ex_draw_Message_def TypeDraw_def)
  have 4: "unmarshal_DrawElement (marshal_value (msg_Data (ex_draw_Message ''bob'')))
       = Some (ex_element\<lparr>el_UserID := ''bob''\<rparr>)"
    by (rule unmarshal_ex_draw_element)
  have 5: "unmarshal_DrawElement (marshal_value (msg_Data (ex_draw_Message ''mallory'')))
       = Some (ex_element\<lparr>el_UserID := ''bob'', el_UserID := ''mallory''\<rparr>)"
    by (simp add: unmarshal_ex_draw_element)
  have 6: "foldName ''USERID'' = foldName ''userId''"
    by code_simp
  note inst = wire_userId_overwritten [where c = 0 and s = ex_state
      and b = "ex_draw ''bob''" and m = "ex_draw_Message ''bob''"
      and b' = "ex_draw ''mallory''" and m' = "ex_draw_Message ''mallory''"
      and e = "ex_element\<lparr>el_UserID := ''bob''\<rparr>" and w = "''mallory''"
      and k = "''USERID''" and pre = "[(''type'', JStr ''clear'')]" and post = "[]"
      and u = "''bob''" and u' = "''mallory''"]
  from inst 1 2 3 4 5
  have 7: "readPump_message 0 (ex_draw ''mallory'') ex_state
       = readPump_message 0 (ex_draw ''bob'') ex_state"
    by blast
  from inst 6
  have 8: "readPump_message 0 (Some (JObj ([(''type'', JStr ''clear'')] @ (''USERID'', JStr ''mallory'') # []))) ex_state
       = readPump_message 0 (Some (JObj ([(''type'', JStr ''clear'')] @ (''USERID'', JStr ''bob'') # []))) ex_state"
    by blast
  from 1 2 3 4 5 6 7 8 show ?thesis by blast
qed

text \<open>
  The claim as stated fails for a draw message whose data does not decode into an
  element: the \<open>userId\<close> inside the data reaches B as the client wrote it, not as the
  id A of the connection, and two such messages that differ only in that \<open>userId\<close>
  are broadcast as different payloads.  It also fails for two clear messages that
  differ only in their wire \<open>userId\<close>, a string in one and a number in the other: the
  first is handled, the second does not decode and is dropped.
\<close>

theorem unparsed_draw_keeps_wire_userId:
  "cl_ID (clients ex_state 0) = ''A''
   \<and> map_option (GetElements 0) (readPump_message 0 (ex_bad_draw ''mallory'') ex_state) = Some []
   \<and> map_option (Send_buf 1) (readPump_message 0 (ex_bad_draw ''mallory'') ex_state)
       = Some [JObj [(''type'', JStr ''draw''), (''userId'', JStr ''A''),
                     (''data'', JObj [(''id'', JStr ''e1''), (''userId'', JStr ''mallory''),
                                      (''x1'', JStr ''left'')])]]
   \<and> map_option (Send_buf 1) (readPump_message 0 (ex_bad_draw ''bob'') ex_state)
       = Some [JObj [(''type'', JStr ''draw''), (''userId'', JStr ''A''),
                     (''data'', JObj [(''id'', JStr ''e1''), (''userId'', JStr ''bob''),
                                      (''x1'', JStr ''left'')])]]
   \<and> map_option (Send_buf 1) (readPump_message 0 (ex_clear_userId (JStr ''5'')) ex_state)
       = Some [JObj [(''type'', JStr ''clear''), (''userId'', JStr ''A'')]]
   \<and> map_option (Send_buf 1) (readPump_message 0 (ex_clear_userId (JNum 5)) ex_state)
       = Some []
   \<and> map_option log_lines (readPump_message 0 (ex_clear_userId (JNum 5)) ex_state)
       = Some [LogUnmarshalError]"
  by code_simp


section \<open>Joining, clearing and the bounded queue\<close>

lemma getNextColor_Some:
  assumes "0 \<le> sint (colorIndex s)"
  shows "\<exists>color. getNextColor s = Some (color, s\<lparr>colorIndex := colorIndex s + 1\<rparr>)"
proof -
  have len: "int (length userColors) = 8" by (simp add: userColors_def)
  have "sint (colorIndex s) smod 8 = sint (colorIndex s) mod 8"
    using assms by (intro smod_nonneg_pos) simp_all
  moreover have "0 \<le> sint (colorIndex s) mod 8" "sint (colorIndex s) mod 8 < 8"
    by simp_all
  ultimately show ?thesis
    by (simp add: getNextColor_def Let_def len)
qed

lemma enq_Conn [simp]: "cl_Conn (enq msg cl) = cl_Conn cl"
  by (simp add: enq_def)

lemma enq_ID [simp]: "cl_ID (enq msg cl) = cl_ID cl"
  by (simp add: enq_def)

lemma enq_closed [simp]: "cl_closed (enq msg cl) = cl_closed cl"
  by (simp add: enq_def)

lemma enq_Room [simp]: "cl_Room (enq msg cl) = cl_Room cl"
  by (simp add: enq_def)

lemma sendable_new_Client [simp]: "sendable (new_Client u r col)"
  by (simp add: sendable_def new_Client_def make_chan_def)

lemma sendable_Conn_update [simp]: "sendable (cl\<lparr>cl_Conn := cn\<rparr>) = sendable cl"
  by (simp add: sendable_def)

lemma sendable_enq [simp]: "sendable (enq msg cl) = sendable cl"
  by (simp add: sendable_def enq_def)

lemma members_AddClient:
  "members r (AddClient r c s) = List.insert c (members r s)"
  by (simp add: members_def AddClient_def)

lemma members_update_client [simp]: "members r (update_client c f s) = members r s"
  by (simp add: members_def)

lemma members_log_Printf [simp]: "members r (log_Printf l s) = members r s"
  by (simp add: members_def)

lemma members_deliver [simp]: "members r (deliver msg P s) = members r s"
  by (simp add: members_def)

text \<open>
  \<open>handleWebSocket\<close> for a room the hub knows, when the upgrade succeeds and nothing
  panics: the new client is at the next free address and the sync message is the first
  and only message written to its connection before the pumps start.
\<close>

lemma handleWebSocket_known_room:
  assumes room: "hub_Rooms (s :: 'i::len state) (if roomId = [] then ''default'' else roomId) = Some r"
    and color: "0 \<le> sint (colorIndex s)"
    and ok: "\<forall>p \<in> set (members r s). sendable (clients s p)"
    and gen: "userId \<noteq> [] \<or> 48 < LENGTH('i)"
  shows "\<exists>s' uid color.
           handleWebSocket roomId userId True s = Some (Some (next_client s), s')
           \<and> conn_written (cl_Conn (clients s' (next_client s)))
               = [marshal_Message \<lparr>msg_Type = TypeSync, msg_UserID = uid,
                    msg_Data = VSync (rm_Elements (rooms s r)) uid color\<rparr>]
           \<and> cl_ID (clients s' (next_client s)) = uid
           \<and> rooms s' = (rooms s)(r := (rooms s r)\<lparr>rm_Clients :=
                  Dlist.insert (next_client s) (rm_Clients (rooms s r))\<rparr>)"
proof -
  let ?roomID = "if roomId = [] then ''default'' else roomId"
  obtain uid s0 where uid:
    "(if userId = [] then
             map_option (\<lambda>(i, seed). (i, s\<lparr>randSeed := seed\<rparr>)) (generateID TYPE('i) (randSeed s))
           else Some (userId, s)) = Some (uid, s0)"
    and s0: "\<exists>seed. s0 = s\<lparr>randSeed := seed\<rparr>"
  proof (cases "userId = []")
    case True
    from True gen have "48 < LENGTH('i)" by simp
    then obtain i seed' where "generateID TYPE('i) (randSeed s) = Some (i, seed')"
      using generateID_total by blast
    with True show ?thesis by (intro that [of i "s\<lparr>randSeed := seed'\<rparr>"]) auto
  next
    case False
    have "\<exists>seed. s = s\<lparr>randSeed := seed\<rparr>"
      by (rule exI [of _ "randSeed s"]) simp
    with False show ?thesis by (intro that [of userId s]) simp_all
  qed
  from s0 obtain seed where s0': "s0 = s\<lparr>randSeed := seed\<rparr>" by blast
  have g: "GetOrCreateRoom ?roomID s0 = (r, s0)"
    using room by (simp add: GetOrCreateRoom_def s0')
  obtain col where col: "getNextColor s0 = Some (col, s0\<lparr>colorIndex := colorIndex s0 + 1\<rparr>)"
    using getNextColor_Some [of s0] color by (auto simp: s0')
  define c where "c = next_client s"
  define s2 where "s2 = s0\<lparr>colorIndex := colorIndex s0 + 1\<rparr>"
  define s3 where "s3 = s2\<lparr>clients := (clients s2)(c := new_Client uid r col), next_client := Suc c\<rparr>"
  define s4 where "s4 = log_Printf (LogJoined uid ?roomID) (AddClient r c s3)"
  define syncMsg where "syncMsg = \<lparr>msg_Type = TypeSync, msg_UserID = uid,
                         msg_Data = VSync (GetElements r s4) uid col\<rparr>"
  define s5 where "s5 = update_client c
                    (\<lambda>cl. cl\<lparr>cl_Conn := fst (WriteMessage (marshal_Message syncMsg) (cl_Conn cl))\<rparr>) s4"
  define joinMsg where "joinMsg = \<lparr>msg_Type = TypeJoin, msg_UserID = uid,
                         msg_Data = VUserInfo \<lparr>ui_ID = uid, ui_Color = col\<rparr>\<rparr>"
  define s6 where "s6 = deliver (marshal_Message joinMsg) (\<lambda>p. p \<in> set (members r s5) \<and> p \<noteq> c) s5"
  define userListMsg where "userListMsg = \<lparr>msg_Type = TypeUserList, msg_UserID = [],
                            msg_Data = VUserList (GetUserList r s6)\<rparr>"
  define s7 where "s7 = deliver (marshal_Message userListMsg) (\<lambda>p. p \<in> set (members r s6)) s6"
  have nc: "next_client s2 = c" by (simp add: s2_def s0' c_def)
  have mem3: "members r s3 = members r s"
    by (simp add: members_def s3_def s2_def s0')
  have mem5: "members r s5 = List.insert c (members r s)"
    by (simp add: s5_def s4_def members_AddClient mem3)
  have cl5: "\<And>p. p \<noteq> c \<Longrightarrow> clients s5 p = clients s p"
    by (simp add: s5_def s4_def AddClient_def s3_def s2_def s0')
  have cl5c: "clients s5 c = (new_Client uid r col)\<lparr>cl_Conn :=
        \<lparr>conn_written = [marshal_Message syncMsg], conn_closed = False\<rparr>\<rparr>"
    by (simp add: s5_def s4_def AddClient_def s3_def WriteMessage_def new_Client_def)
  have ok5: "\<forall>p \<in> set (members r s5). sendable (clients s5 p)"
  proof
    fix p assume p: "p \<in> set (members r s5)"
    show "sendable (clients s5 p)"
    proof (cases "p = c")
      case True
      then show ?thesis by (simp add: cl5c)
    next
      case False
      with p have "p \<in> set (members r s)" by (simp add: mem5)
      with ok False show ?thesis by (simp add: cl5)
    qed
  qed
  have b1: "Broadcast r (marshal_Message joinMsg) c s5 = Some s6"
    using ok5 by (simp add: Broadcast_eq s6_def)
  have ok6: "\<forall>p \<in> set (members r s6). sendable (clients s6 p)"
    using ok5 by (simp add: s6_def)
  have b2: "BroadcastToAll r (marshal_Message userListMsg) s6 = Some s7"
    using ok6 by (simp add: BroadcastToAll_eq s7_def)
  have run: "handleWebSocket roomId userId True s = Some (Some c, s7)"
    unfolding handleWebSocket_def
    by (simp add: uid g col Let_def nc
        s2_def [symmetric] s3_def [symmetric] s4_def [symmetric] syncMsg_def [symmetric]
        s5_def [symmetric] joinMsg_def [symmetric] b1 userListMsg_def [symmetric] b2)
  have el: "GetElements r s4 = rm_Elements (rooms s r)"
    by (simp add: GetElements_def s4_def AddClient_def s3_def s2_def s0')
  have "cl_Conn (clients s7 c) = cl_Conn (clients s5 c)"
    by (simp add: s7_def s6_def)
  then have w: "conn_written (cl_Conn (clients s7 c))
      = [marshal_Message \<lparr>msg_Type = TypeSync, msg_UserID = uid,
                    msg_Data = VSync (rm_Elements (rooms s r)) uid col\<rparr>]"
    by (simp add: cl5c syncMsg_def el)
  have i: "cl_ID (clients s7 c) = uid"
    by (simp add: s7_def s6_def cl5c new_Client_def)
  have rm: "rooms s7 = (rooms s)(r := (rooms s r)\<lparr>rm_Clients :=
                  Dlist.insert c (rm_Clients (rooms s r))\<rparr>)"
    by (simp add: s7_def s6_def s5_def s4_def AddClient_def s3_def s2_def s0')
  from run w i rm show ?thesis unfolding c_def by blast
qed


lemma fold_AddElement:
  "rooms (fold (AddElement r) es s)
     = (rooms s)(r := (rooms s r)\<lparr>rm_Elements := rm_Elements (rooms s r) @ es\<rparr>)
   \<and> clients (fold (AddElement r) es s) = clients s
   \<and> hub_Rooms (fold (AddElement r) es s) = hub_Rooms s
   \<and> colorIndex (fold (AddElement r) es s) = colorIndex s
   \<and> next_client (fold (AddElement r) es s) = next_client s"
proof (induction es arbitrary: s)
  case Nil
  show ?case by simp
next
  case (Cons e es)
  show ?case
    using Cons.IH [of "AddElement r e s"] by (auto simp: AddElement_def fun_eq_iff)
qed

lemma GetOrCreateRoom_fresh:
  "hub_Rooms s roomID = None \<Longrightarrow>
   hub_Rooms (snd (GetOrCreateRoom roomID s)) roomID = Some (fst (GetOrCreateRoom roomID s))
   \<and> rm_Elements (rooms (snd (GetOrCreateRoom roomID s)) (fst (GetOrCreateRoom roomID s))) = []"
  by (simp add: GetOrCreateRoom_def Let_def)

text \<open>
  C3.  A connection that joins a session is sent, as the first message on its
  connection, a sync payload whose \<open>elements\<close> are the elements of the session's log
  followed by the elements appended since (\<open>es\<close>, any sequence of \<open>AddElement\<close>), in
  that order and no others; a room just created has an empty log, so that the payload
  then holds exactly the elements appended so far.  The payload is a copy: appending
  to the log afterwards does not change what was sent.  The join is one in which the
  handler does not panic: the colour index is not negative, no member of the room has
  a closed queue with its flag unset, and the user id is given by the request or, if
  it has to be generated, an \<open>int\<close> has more than 48 bits.
\<close>

theorem join_sync_completeness:
  assumes room: "hub_Rooms (s :: 'i::len state) (if roomId = [] then ''default'' else roomId) = Some r"
    and color: "0 \<le> sint (colorIndex s)"
    and ok: "\<forall>p \<in> set (members r s). sendable (clients s p)"
    and gen: "userId \<noteq> [] \<or> 48 < LENGTH('i)"
  shows "\<exists>s' uid color.
           handleWebSocket roomId userId True (fold (AddElement r) es s)
             = Some (Some (next_client s), s')
           \<and> conn_written (cl_Conn (clients s' (next_client s)))
               = [marshal_Message \<lparr>msg_Type = TypeSync, msg_UserID = uid,
                    msg_Data = VSync (rm_Elements (rooms s r) @ es) uid color\<rparr>]
           \<and> marshal_value (VSync (rm_Elements (rooms s r) @ es) uid color)
               = JObj [(''color'', JStr color),
                       (''elements'', JArr (map marshal_DrawElement (rm_Elements (rooms s r) @ es))),
                       (''userId'', JStr uid)]
           \<and> conn_written (cl_Conn (clients (AddElement r e s') (next_client s)))
               = conn_written (cl_Conn (clients s' (next_client s)))
           \<and> (hub_Rooms (t :: 'i state) k = None \<longrightarrow>
                hub_Rooms (snd (GetOrCreateRoom k t)) k = Some (fst (GetOrCreateRoom k t))
                \<and> rm_Elements (rooms (snd (GetOrCreateRoom k t)) (fst (GetOrCreateRoom k t)))
                    = [])"
proof -
  let ?s = "fold (AddElement r) es s"
  note f = fold_AddElement [of r es s]
  have room': "hub_Rooms ?s (if roomId = [] then ''default'' else roomId) = Some r"
    using room f by simp
  have color': "0 \<le> sint (colorIndex ?s)"
    using color f by simp
  have mem: "members r ?s = members r s"
    using f by (simp add: members_def)
  have ok': "\<forall>p \<in> set (members r ?s). sendable (clients ?s p)"
    using ok f mem by simp
  have nc: "next_client ?s = next_client s" using f by simp
  have el: "rm_Elements (rooms ?s r) = rm_Elements (rooms s r) @ es"
    using f by simp
  obtain s' uid color where
    "handleWebSocket roomId userId True ?s = Some (Some (next_client ?s), s')"
    "conn_written (cl_Conn (clients s' (next_client ?s)))
       = [marshal_Message \<lparr>msg_Type = TypeSync, msg_UserID = uid,
            msg_Data = VSync (rm_Elements (rooms ?s r)) uid color\<rparr>]"
    using handleWebSocket_known_room [OF room' color' ok' gen] by blast
  then show ?thesis
    unfolding nc el using GetOrCreateRoom_fresh [of t k]
    by (intro exI [of _ s'] exI [of _ uid] exI [of _ color]) simp
qed

lemma ex_state_room: "hub_Rooms ex_state ''abc123'' = Some 0"
  by (simp add: ex_state_def)

lemma ex_state_misc:
  "colorIndex ex_state = 2" "next_client ex_state = 2" "rm_Elements (rooms ex_state 0) = []"
  by (simp_all add: ex_state_def)

lemma ex_state_sendable:
  "sendable (clients ex_state 1)" "sendable (clients ex_state 0)"
  "sendable (clients ex_state (Suc 0))"
  by (simp_all add: ex_state_clients)

text \<open>The theorem at the example: one element is drawn, then C joins the room.\<close>

theorem join_sync_completeness_witness:
  "hub_Rooms ex_state ''abc123'' = Some 0
   \<and> (0 :: int) \<le> sint (colorIndex ex_state)
   \<and> members 0 ex_state = [1, 0] \<and> sendable (clients ex_state 1) \<and> sendable (clients ex_state 0)
   \<and> 48 < LENGTH(64)
   \<and> (\<exists>s' uid color.
         handleWebSocket ''abc123'' ''C'' True (fold (AddElement 0) [ex_element] ex_state)
           = Some (Some 2, s')
         \<and> conn_written (cl_Conn (clients s' 2))
             = [marshal_Message \<lparr>msg_Type = TypeSync, msg_UserID = uid,
                  msg_Data = VSync [ex_element] uid color\<rparr>])
   \<and> hub_Rooms (init_state :: 64 state) ''abc123'' = None
   \<and> rm_Elements (rooms (snd (GetOrCreateRoom ''abc123'' (init_state :: 64 state)))
                         (fst (GetOrCreateRoom ''abc123'' (init_state :: 64 state)))) = []"
proof -
  have room: "hub_Rooms ex_state (if ''abc123'' = [] then ''default'' else ''abc123'') = Some 0"
    by (simp add: ex_state_room)
  have color: "0 \<le> sint (colorIndex ex_state)"
    by (simp add: ex_state_misc)
  have ok: "\<forall>p \<in> set (members 0 ex_state). sendable (clients ex_state p)"
    by (simp add: members_ex_state ex_state_sendable)
  have gen: "''C'' \<noteq> [] \<or> 48 < LENGTH(64)"
    by simp
  have fresh: "hub_Rooms (init_state :: 64 state) ''abc123'' = None"
    by (simp add: init_state_def)
  have "(\<exists>s' uid color.
         handleWebSocket ''abc123'' ''C'' True (fold (AddElement 0) [ex_element] ex_state)
           = Some (Some 2, s')
         \<and> conn_written (cl_Conn (clients s' 2))
             = [marshal_Message \<lparr>msg_Type = TypeSync, msg_UserID = uid,
                  msg_Data = VSync [ex_element] uid color\<rparr>])
     \<and> rm_Elements (rooms (snd (GetOrCreateRoom ''abc123'' (init_state :: 64 state)))
                         (fst (GetOrCreateRoom ''abc123'' (init_state :: 64 state)))) = []"
    using join_sync_completeness [OF room color ok gen, where es = "[ex_element]"
        and t = init_state and k = "''abc123''"] fresh
    by (simp add: ex_state_misc) blast
  then show ?thesis
    using fresh by (simp add: ex_state_room ex_state_misc members_ex_state ex_state_sendable)
qed

text \<open>
  C6.  After \<open>ClearElements\<close> the log of elements of the room is empty and its set of
  members is what it was; so it is after an inbound clear message has been handled, and
  a snapshot taken then is empty: a connection that joins next is sent a sync payload
  with an empty list of elements (in a join that does not panic, as for C3).
\<close>

theorem clear_empties_log:
  "rm_Elements (rooms (ClearElements r (s :: 'i::len state)) r) = []
   \<and> rm_Clients (rooms (ClearElements r s) r) = rm_Clients (rooms s r)
   \<and> GetElements r (ClearElements r s) = []
   \<and> (unmarshal_Message b = Some m \<and> msg_Type m = TypeClear
        \<and> (\<forall>p \<in> set (members (cl_Room (clients s c)) s). sendable (clients s p)) \<longrightarrow>
      (\<exists>s'. readPump_message c b s = Some s'
         \<and> GetElements (cl_Room (clients s c)) s' = []
         \<and> rm_Clients (rooms s' (cl_Room (clients s c)))
             = rm_Clients (rooms s (cl_Room (clients s c)))
         \<and> (hub_Rooms s (if roomId = [] then ''default'' else roomId) = Some (cl_Room (clients s c))
              \<and> 0 \<le> sint (colorIndex s) \<and> (userId \<noteq> [] \<or> 48 < LENGTH('i)) \<longrightarrow>
            (\<exists>s'' uid color.
               handleWebSocket roomId userId True s' = Some (Some (next_client s), s'')
               \<and> conn_written (cl_Conn (clients s'' (next_client s)))
                   = [marshal_Message \<lparr>msg_Type = TypeSync, msg_UserID = uid,
                        msg_Data = VSync [] uid color\<rparr>]))))"
proof (intro conjI impI)
  show "rm_Elements (rooms (ClearElements r s) r) = []"
    by (simp add: ClearElements_def)
  show "rm_Clients (rooms (ClearElements r s) r) = rm_Clients (rooms s r)"
    by (simp add: ClearElements_def)
  show "GetElements r (ClearElements r s) = []"
    by (simp add: GetElements_def ClearElements_def)
next
  let ?r = "cl_Room (clients s c)"
  assume a: "unmarshal_Message b = Some m \<and> msg_Type m = TypeClear
        \<and> (\<forall>p \<in> set (members ?r s). sendable (clients s p))"
  define s' where "s' = deliver (marshal_Message (m\<lparr>msg_UserID := cl_ID (clients s c)\<rparr>))
      (\<lambda>p. p \<in> set (members ?r s)) (ClearElements ?r s)"
  have run: "readPump_message c b s = Some s'"
    using a by (simp add: readPump_message_decoded BroadcastToAll_eq Type_distinct s'_def)
  have el: "GetElements ?r s' = []"
    by (simp add: s'_def GetElements_def ClearElements_def)
  have cl: "rm_Clients (rooms s' ?r) = rm_Clients (rooms s ?r)"
    by (simp add: s'_def ClearElements_def)
  have join: "\<exists>s'' uid color.
               handleWebSocket roomId userId True s' = Some (Some (next_client s), s'')
               \<and> conn_written (cl_Conn (clients s'' (next_client s)))
                   = [marshal_Message \<lparr>msg_Type = TypeSync, msg_UserID = uid,
                        msg_Data = VSync [] uid color\<rparr>]"
    if h: "hub_Rooms s (if roomId = [] then ''default'' else roomId) = Some ?r
              \<and> 0 \<le> sint (colorIndex s) \<and> (userId \<noteq> [] \<or> 48 < LENGTH('i))"
  proof -
    have room': "hub_Rooms s' (if roomId = [] then ''default'' else roomId) = Some ?r"
      using h by (simp add: s'_def ClearElements_def)
    have color': "0 \<le> sint (colorIndex s')"
      using h by (simp add: s'_def ClearElements_def)
    have ok': "\<forall>p \<in> set (members ?r s'). sendable (clients s' p)"
      using a by (simp add: s'_def)
    have nc: "next_client s' = next_client s"
      by (simp add: s'_def ClearElements_def)
    have e: "rm_Elements (rooms s' ?r) = []"
      using el by (simp add: GetElements_def)
    have gen: "userId \<noteq> [] \<or> 48 < LENGTH('i)"
      using h by simp
    show ?thesis
      using handleWebSocket_known_room [OF room' color' ok' gen]
      unfolding nc e by blast
  qed
  from run el cl join
  show "\<exists>s'. readPump_message c b s = Some s'
         \<and> GetElements (cl_Room (clients s c)) s' = []
         \<and> rm_Clients (rooms s' (cl_Room (clients s c)))
             = rm_Clients (rooms s (cl_Room (clients s c)))
         \<and> (hub_Rooms s (if roomId = [] then ''default'' else roomId) = Some (cl_Room (clients s c))
              \<and> 0 \<le> sint (colorIndex s) \<and> (userId \<noteq> [] \<or> 48 < LENGTH('i)) \<longrightarrow>
            (\<exists>s'' uid color.
               handleWebSocket roomId userId True s' = Some (Some (next_client s), s'')
               \<and> conn_written (cl_Conn (clients s'' (next_client s)))
                   = [marshal_Message \<lparr>msg_Type = TypeSync, msg_UserID = uid,
                        msg_Data = VSync [] uid color\<rparr>]))"
    by blast
qed

lemma unmarshal_ex_clear:
  "unmarshal_Message ex_clear = Some \<lparr>msg_Type = ''clear'', msg_UserID = [], msg_Data = VJson JNull\<rparr>"
  by (simp add: ex_clear_def unmarshal_Message_def Message_member_literals decode_string_def
      zero_Message_def Let_def)

text \<open>The theorem at the example: an element is drawn, A clears, C joins.\<close>

theorem clear_empties_log_witness:
  "unmarshal_Message ex_clear
     = Some \<lparr>msg_Type = ''clear'', msg_UserID = [], msg_Data = VJson JNull\<rparr>
   \<and> GetElements 0 (AddElement 0 ex_element ex_state) = [ex_element]
   \<and> 48 < LENGTH(64)
   \<and> (\<exists>s'. readPump_message 0 ex_clear (AddElement 0 ex_element ex_state) = Some s'
         \<and> GetElements 0 s' = []
         \<and> rm_Clients (rooms s' 0) = rm_Clients (rooms ex_state 0)
         \<and> (\<exists>s'' uid color.
               handleWebSocket ''abc123'' ''C'' True s' = Some (Some 2, s'')
               \<and> conn_written (cl_Conn (clients s'' 2))
                   = [marshal_Message \<lparr>msg_Type = TypeSync, msg_UserID = uid,
                        msg_Data = VSync [] uid color\<rparr>]))"
proof -
  let ?s = "AddElement 0 ex_element ex_state"
  have ty: "msg_Type \<lparr>msg_Type = ''clear'', msg_UserID = [], msg_Data = VJson JNull\<rparr> = TypeClear"
    by (simp add: TypeClear_def)
  have r: "cl_Room (clients ?s 0) = 0"
    by (simp add: ex_state_clients new_Client_def)
  have r0: "cl_Room (clients ex_state 0) = 0"
    by (simp add: ex_state_clients new_Client_def)
  have ok: "\<forall>p \<in> set (members (cl_Room (clients ?s 0)) ?s). sendable (clients ?s p)"
    by (simp add: r0 members_ex_state ex_state_sendable)
  have room: "hub_Rooms ?s (if ''abc123'' = [] then ''default'' else ''abc123'') = Some (cl_Room (clients ?s 0))"
    by (simp add: r0 AddElement_def ex_state_room)
  have color: "0 \<le> sint (colorIndex ?s)"
    by (simp add: AddElement_def ex_state_misc)
  have el: "GetElements 0 ?s = [ex_element]"
    by (simp add: GetElements_def AddElement_def ex_state_misc)
  have misc: "next_client ?s = 2" "rm_Clients (rooms ?s 0) = rm_Clients (rooms ex_state 0)"
    by (simp_all add: AddElement_def ex_state_misc)
  have len: "48 < LENGTH(64)"
    by simp
  then have gen: "''C'' \<noteq> [] \<or> 48 < LENGTH(64)"
    by simp
  from clear_empties_log [where b = ex_clear and c = 0 and s = ?s
      and m = "\<lparr>msg_Type = ''clear'', msg_UserID = [], msg_Data = VJson JNull\<rparr>"
      and roomId = "''abc123''" and userId = "''C''"]
    unmarshal_ex_clear ty ok room color gen
  have "\<exists>s'. readPump_message 0 ex_clear ?s = Some s'
         \<and> GetElements (cl_Room (clients ?s 0)) s' = []
         \<and> rm_Clients (rooms s' (cl_Room (clients ?s 0)))
             = rm_Clients (rooms ?s (cl_Room (clients ?s 0)))
         \<and> (\<exists>s'' uid color.
               handleWebSocket ''abc123'' ''C'' True s' = Some (Some (next_client ?s), s'')
               \<and> conn_written (cl_Conn (clients s'' (next_client ?s)))
                   = [marshal_Message \<lparr>msg_Type = TypeSync, msg_UserID = uid,
                        msg_Data = VSync [] uid color\<rparr>])"
    by blast
  then show ?thesis
    unfolding r misc using unmarshal_ex_clear el len by blast
qed

lemma send_each_eq:
  "sendable (clients s c) \<Longrightarrow>
   send_each msgs c s =
     Some (if cl_closed (clients s c) then s
           else update_client c
                  (\<lambda>cl. cl\<lparr>cl_Send := (cl_Send cl)\<lparr>ch_buf := ch_buf (cl_Send cl)
                      @ take (ch_cap (cl_Send cl) - length (ch_buf (cl_Send cl))) msgs\<rparr>\<rparr>) s)"
proof (induction msgs arbitrary: s)
  case Nil
  then show ?case by (simp add: update_client_def)
next
  case (Cons m msgs)
  let ?s1 = "update_client c (enq m) s"
  have 1: "send_locked m c s = Some ?s1"
    using Cons.prems by (simp add: send_locked_eq)
  have 2: "sendable (clients ?s1 c)"
    using Cons.prems by simp
  show ?case
  proof (cases "cl_closed (clients s c)")
    case True
    then have "?s1 = s" by (simp add: enq_def update_client_def)
    with True Cons.IH [OF 2] 1 show ?thesis by simp
  next
    case False
    show ?thesis
    proof (cases "length (ch_buf (cl_Send (clients s c))) < ch_cap (cl_Send (clients s c))")
      case True
      then have "ch_cap (cl_Send (clients s c)) - length (ch_buf (cl_Send (clients s c)))
           = Suc (ch_cap (cl_Send (clients s c)) - Suc (length (ch_buf (cl_Send (clients s c)))))"
        by simp
      with True False Cons.IH [OF 2] 1 show ?thesis
        by (simp add: enq_def update_client_def)
    next
      case False
      with \<open>\<not> cl_closed (clients s c)\<close> Cons.IH [OF 2] 1 show ?thesis
        by (simp add: enq_def update_client_def)
    qed
  qed
qed

text \<open>
  C7.  The queue of a connection is made with capacity 256.  Of 257 enqueue attempts
  on an open connection whose queue is empty and is not drained, the first 256 append
  their payloads in order and the last one leaves the queue as it is; every attempt
  returns.
\<close>

theorem drop_under_load:
  assumes "\<not> cl_closed (clients s c)" and "\<not> ch_closed (cl_Send (clients s c))"
    and "ch_cap (cl_Send (clients s c)) = 256" and "Send_buf c s = []"
    and "length msgs = 257"
  shows "ch_cap (cl_Send (new_Client userID room color)) = 256
         \<and> (\<exists>s1 s2. send_each (butlast msgs) c s = Some s1
               \<and> Send_buf c s1 = butlast msgs
               \<and> send_locked (last msgs) c s1 = Some s1
               \<and> send_each msgs c s = Some s2
               \<and> Send_buf c s2 = take 256 msgs)"
proof -
  have cap: "ch_cap (cl_Send (new_Client userID room color)) = 256"
    by (simp add: new_Client_def make_chan_def)
  have sb: "sendable (clients s c)"
    using assms(1) assms(2) by (simp add: sendable_def)
  let ?upd = "\<lambda>ms. update_client c
                  (\<lambda>cl. cl\<lparr>cl_Send := (cl_Send cl)\<lparr>ch_buf := ch_buf (cl_Send cl)
                      @ take (ch_cap (cl_Send cl) - length (ch_buf (cl_Send cl))) ms\<rparr>\<rparr>) s"
  have e: "\<And>ms. send_each ms c s = Some (?upd ms)"
    using send_each_eq [OF sb] assms(1) by simp
  have b: "\<And>ms. Send_buf c (?upd ms) = take 256 ms"
    using assms(3,4) by (simp add: Send_buf_def)
  have lb: "length (butlast msgs) = 256" using assms(5) by simp
  have 1: "Send_buf c (?upd (butlast msgs)) = butlast msgs"
    using lb by (simp add: b)
  have 2: "send_locked (last msgs) c (?upd (butlast msgs)) = Some (?upd (butlast msgs))"
    using assms(1,2,3,4) lb
    by (simp add: send_locked_def chan_try_send_def Send_buf_def)
  from cap e [of "butlast msgs"] 1 2 e [of msgs] b [of msgs] show ?thesis
    by blast
qed

text \<open>The theorem at the example: 257 different payloads for B.\<close>

theorem drop_under_load_witness:
  "\<not> cl_closed (clients ex_state 1) \<and> \<not> ch_closed (cl_Send (clients ex_state 1))
   \<and> ch_cap (cl_Send (clients ex_state 1)) = 256 \<and> Send_buf 1 ex_state = []
   \<and> length (map (\<lambda>i. JNum (real i)) [0..<257]) = 257
   \<and> (\<exists>s1 s2. send_each (butlast (map (\<lambda>i. JNum (real i)) [0..<257])) 1 ex_state = Some s1
         \<and> Send_buf 1 s1 = butlast (map (\<lambda>i. JNum (real i)) [0..<257])
         \<and> send_locked (last (map (\<lambda>i. JNum (real i)) [0..<257])) 1 s1 = Some s1
         \<and> send_each (map (\<lambda>i. JNum (real i)) [0..<257]) 1 ex_state = Some s2
         \<and> Send_buf 1 s2 = take 256 (map (\<lambda>i. JNum (real i)) [0..<257]))"
proof -
  have h: "\<not> cl_closed (clients ex_state 1)" "\<not> ch_closed (cl_Send (clients ex_state 1))"
    "ch_cap (cl_Send (clients ex_state 1)) = 256" "Send_buf 1 ex_state = []"
    by (simp_all add: ex_state_clients new_Client_def make_chan_def Send_buf_def)
  have l: "length (map (\<lambda>i. JNum (real i)) [0..<257]) = 257"
    by simp
  from drop_under_load [OF h l] h l show ?thesis by blast
qed

section \<open>No send after close\<close>

lemma chan_inv_init: "chan_inv init_state"
  by (simp add: chan_inv_def init_state_def zero_Client_def make_chan_def)

lemma GetOrCreateRoom_clients [simp]:
  "clients (snd (GetOrCreateRoom roomID s)) = clients s"
  "next_client (snd (GetOrCreateRoom roomID s)) = next_client s"
  by (simp_all add: GetOrCreateRoom_def Let_def split: option.splits)

lemma getNextColor_state:
  "getNextColor s = Some (color, s') \<Longrightarrow> s' = s\<lparr>colorIndex := colorIndex s + 1\<rparr>"
  unfolding getNextColor_def Let_def by (simp split: if_splits)

lemma chan_inv_atomic:
  assumes "atomic s s'" and "chan_inv s"
  shows "chan_inv s'"
  using assms
proof (induction rule: atomic.induct)
  case (a_send msg client s s')
  then have "s' = update_client client (enq msg) s"
    by (simp add: send_locked_eq split: if_splits)
  with a_send.prems show ?case
    by (simp add: chan_inv_def enq_def)
next
  case (a_close client s s')
  then have "s' = update_client client
        (\<lambda>cl. cl\<lparr>cl_closed := True, cl_Send := (cl_Send cl)\<lparr>ch_closed := True\<rparr>\<rparr>) s"
    by (auto simp: readPump_close_def chan_close_def split: if_splits)
  with a_close show ?case
    by (simp add: chan_inv_def)
next
  case (a_recv s client msg rest)
  then show ?case by (simp add: chan_inv_def)
next
  case (a_write s client msg)
  then show ?case by (simp add: chan_inv_def)
next
  case (a_conn_close s client)
  then show ?case by (simp add: chan_inv_def Conn_Close_def)
next
  case (a_new s userID room color)
  then show ?case
    by (auto simp: chan_inv_def new_Client_def make_chan_def less_Suc_eq)
next
  case (a_add_client s r client)
  then show ?case by (simp add: chan_inv_def AddClient_def)
next
  case (a_remove_client s r client)
  then show ?case by (simp add: chan_inv_def RemoveClient_def)
next
  case (a_add_element s r element)
  then show ?case by (simp add: chan_inv_def AddElement_def)
next
  case (a_clear s r)
  then show ?case by (simp add: chan_inv_def ClearElements_def)
next
  case (a_room s roomID)
  then show ?case by (simp add: chan_inv_def)
next
  case (a_color s color s')
  then have "s' = s\<lparr>colorIndex := colorIndex s + 1\<rparr>" by (simp add: getNextColor_state)
  with a_color.prems show ?case by (simp add: chan_inv_def)
next
  case (a_seed maxv s r seed)
  then show ?case by (simp add: chan_inv_def)
next
  case (a_log s l)
  then show ?case by (simp add: chan_inv_def)
qed

lemma chan_inv_steps: "atomic\<^sup>*\<^sup>* s s' \<Longrightarrow> chan_inv s \<Longrightarrow> chan_inv s'"
  by (induction rule: rtranclp_induct) (auto intro: chan_inv_atomic)

lemma chan_inv_reachable: "reachable s \<Longrightarrow> chan_inv s"
  unfolding reachable_def by (erule chan_inv_steps) (rule chan_inv_init)

lemma chan_inv_sendable: "chan_inv s \<Longrightarrow> sendable (clients s c)"
  by (simp add: chan_inv_def sendable_def)

text \<open>A closed client stays closed, and its queue only loses payloads at the front.\<close>

lemma closed_atomic:
  assumes "atomic s s'" and "chan_inv s" and "cl_closed (clients s c)"
  shows "cl_closed (clients s' c) \<and> (\<exists>k. Send_buf c s' = drop k (Send_buf c s))"
  using assms
proof (induction rule: atomic.induct)
  case (a_send msg client s s')
  then have "s' = update_client client (enq msg) s"
    by (simp add: send_locked_eq split: if_splits)
  with a_send.prems show ?case
    by (auto simp: enq_def Send_buf_def intro: exI [of _ 0])
next
  case (a_close client s s')
  then have "s' = update_client client
        (\<lambda>cl. cl\<lparr>cl_closed := True, cl_Send := (cl_Send cl)\<lparr>ch_closed := True\<rparr>\<rparr>) s"
    by (auto simp: readPump_close_def chan_close_def split: if_splits)
  with a_close show ?case
    by (auto simp: Send_buf_def intro: exI [of _ 0])
next
  case (a_recv s client msg rest)
  show ?case
  proof (cases "client = c")
    case True
    with a_recv show ?thesis
      by (auto simp: Send_buf_def intro: exI [of _ 1])
  next
    case False
    with a_recv show ?thesis
      by (auto simp: Send_buf_def intro: exI [of _ 0])
  qed
next
  case (a_write s client msg)
  then show ?case by (auto simp: Send_buf_def intro: exI [of _ 0])
next
  case (a_conn_close s client)
  then show ?case by (auto simp: Send_buf_def Conn_Close_def intro: exI [of _ 0])
next
  case (a_new s userID room color)
  then have "c < next_client s" by (simp add: chan_inv_def)
  with a_new show ?case
    by (auto simp: Send_buf_def intro: exI [of _ 0])
next
  case (a_add_client s r client)
  then show ?case by (auto simp: Send_buf_def AddClient_def intro: exI [of _ 0])
next
  case (a_remove_client s r client)
  then show ?case by (auto simp: Send_buf_def RemoveClient_def intro: exI [of _ 0])
next
  case (a_add_element s r element)
  then show ?case by (auto simp: Send_buf_def AddElement_def intro: exI [of _ 0])
next
  case (a_clear s r)
  then show ?case by (auto simp: Send_buf_def ClearElements_def intro: exI [of _ 0])
next
  case (a_room s roomID)
  then show ?case by (auto simp: Send_buf_def intro: exI [of _ 0])
next
  case (a_color s color s')
  then have "s' = s\<lparr>colorIndex := colorIndex s + 1\<rparr>" by (simp add: getNextColor_state)
  with a_color.prems show ?case by (auto simp: Send_buf_def intro: exI [of _ 0])
next
  case (a_seed maxv s r seed)
  then show ?case by (auto simp: Send_buf_def intro: exI [of _ 0])
next
  case (a_log s l)
  then show ?case by (auto simp: Send_buf_def intro: exI [of _ 0])
qed

lemma closed_steps:
  assumes "atomic\<^sup>*\<^sup>* s s'" and "chan_inv s" and "cl_closed (clients s c)"
  shows "cl_closed (clients s' c) \<and> (\<exists>k. Send_buf c s' = drop k (Send_buf c s))"
  using assms
proof (induction rule: rtranclp_induct)
  case base
  show ?case using base by (auto intro: exI [of _ 0])
next
  case (step y z)
  then have y: "cl_closed (clients y c)" and "\<exists>k. Send_buf c y = drop k (Send_buf c s)"
    by simp_all
  then obtain k where k: "Send_buf c y = drop k (Send_buf c s)" by blast
  have "chan_inv y" using step.hyps(1) step.prems(1) by (rule chan_inv_steps)
  with step.hyps(2) y have "cl_closed (clients z c)"
    and "\<exists>j. Send_buf c z = drop j (Send_buf c y)"
    using closed_atomic by blast+
  then obtain j where "Send_buf c z = drop j (Send_buf c y)" by blast
  with k have "Send_buf c z = drop (j + k) (Send_buf c s)" by (simp add: add.commute)
  with \<open>cl_closed (clients z c)\<close> show ?case by blast
qed

subsection \<open>The functions of the source are runs of atomic steps\<close>

lemma atomic_one: "atomic s t \<Longrightarrow> atomic\<^sup>*\<^sup>* s t"
  by (rule r_into_rtranclp)

lemma atomic_then: "atomic s t \<Longrightarrow> atomic\<^sup>*\<^sup>* t u \<Longrightarrow> atomic\<^sup>*\<^sup>* s u"
  by (rule converse_rtranclp_into_rtranclp)

lemma quiet_one: "quiet s t \<Longrightarrow> quiet\<^sup>*\<^sup>* s t"
  by (rule r_into_rtranclp)

lemma quiet_then: "quiet s t \<Longrightarrow> quiet\<^sup>*\<^sup>* t u \<Longrightarrow> quiet\<^sup>*\<^sup>* s u"
  by (rule converse_rtranclp_into_rtranclp)

lemma quiet_steps_atomic: "quiet\<^sup>*\<^sup>* s s' \<Longrightarrow> atomic\<^sup>*\<^sup>* s s'"
proof (induction rule: rtranclp_induct)
  case base
  show ?case by (rule rtranclp.rtrancl_refl)
next
  case (step t u)
  from step.hyps(2) have "atomic t u" by (simp add: quiet_def)
  with step.IH show ?case by (rule rtranclp.rtrancl_into_rtrancl)
qed

lemma send_locked_quiet: "send_locked msg p s = Some s' \<Longrightarrow> quiet s s'"
  unfolding quiet_def
  by (rule conjI [OF a_send]) (auto simp: send_locked_eq split: if_splits)

lemma Broadcast_range_quiet:
  "Broadcast_range msg sender ps s = Some s' \<Longrightarrow> quiet\<^sup>*\<^sup>* s s'"
proof (induction ps arbitrary: s)
  case Nil
  then show ?case by simp
next
  case (Cons p ps)
  show ?case
  proof (cases "p = sender")
    case True
    with Cons show ?thesis by simp
  next
    case False
    with Cons.prems obtain s1 where 1: "send_locked msg p s = Some s1"
      and 2: "Broadcast_range msg sender ps s1 = Some s'"
      by (auto split: option.splits)
    from 1 have "quiet s s1" by (rule send_locked_quiet)
    moreover from 2 have "quiet\<^sup>*\<^sup>* s1 s'" by (rule Cons.IH)
    ultimately show ?thesis by (rule converse_rtranclp_into_rtranclp)
  qed
qed

lemma BroadcastToAll_range_quiet:
  "BroadcastToAll_range msg ps s = Some s' \<Longrightarrow> quiet\<^sup>*\<^sup>* s s'"
proof (induction ps arbitrary: s)
  case Nil
  then show ?case by simp
next
  case (Cons p ps)
  then obtain s1 where 1: "send_locked msg p s = Some s1"
    and 2: "BroadcastToAll_range msg ps s1 = Some s'"
    by (auto split: option.splits)
  from 1 have "quiet s s1" by (rule send_locked_quiet)
  moreover from 2 have "quiet\<^sup>*\<^sup>* s1 s'" by (rule Cons.IH)
  ultimately show ?case by (rule converse_rtranclp_into_rtranclp)
qed

lemma Broadcast_quiet: "Broadcast r msg sender s = Some s' \<Longrightarrow> quiet\<^sup>*\<^sup>* s s'"
  unfolding Broadcast_def by (rule Broadcast_range_quiet)

lemma BroadcastToAll_quiet: "BroadcastToAll r msg s = Some s' \<Longrightarrow> quiet\<^sup>*\<^sup>* s s'"
  unfolding BroadcastToAll_def by (rule BroadcastToAll_range_quiet)

lemma Broadcast_atomic: "Broadcast r msg sender s = Some s' \<Longrightarrow> atomic\<^sup>*\<^sup>* s s'"
  by (rule quiet_steps_atomic [OF Broadcast_quiet])

lemma BroadcastToAll_atomic: "BroadcastToAll r msg s = Some s' \<Longrightarrow> atomic\<^sup>*\<^sup>* s s'"
  by (rule quiet_steps_atomic [OF BroadcastToAll_quiet])

lemma readPump_message_atomic:
  assumes "readPump_message c b s = Some s'"
  shows "atomic\<^sup>*\<^sup>* s s'"
proof (cases "unmarshal_Message b")
  case None
  with assms have "s' = log_Printf LogUnmarshalError s"
    by (simp add: readPump_message_def)
  then show ?thesis by (simp add: a_log atomic_one)
next
  case (Some m)
  note run = assms [unfolded readPump_message_decoded [OF Some]]
  show ?thesis
  proof (cases "msg_Type m = TypeDraw")
    case True
    show ?thesis
    proof (cases "unmarshal_DrawElement (marshal_value (msg_Data m))")
      case None
      with run True show ?thesis by (auto intro: Broadcast_atomic)
    next
      case (Some e)
      with run True have "atomic\<^sup>*\<^sup>*
          (AddElement (cl_Room (clients s c)) (e\<lparr>el_UserID := cl_ID (clients s c)\<rparr>) s) s'"
        by (auto intro: Broadcast_atomic)
      moreover have "atomic s
          (AddElement (cl_Room (clients s c)) (e\<lparr>el_UserID := cl_ID (clients s c)\<rparr>) s)"
        by (rule a_add_element)
      ultimately show ?thesis
        by (rule converse_rtranclp_into_rtranclp [rotated])
    qed
  next
    case False
    show ?thesis
    proof (cases "msg_Type m = TypeCursor")
      case True
      with run False show ?thesis by (auto intro: Broadcast_atomic)
    next
      case nc: False
      show ?thesis
      proof (cases "msg_Type m = TypeClear")
        case True
        with run False nc have "atomic\<^sup>*\<^sup>* (ClearElements (cl_Room (clients s c)) s) s'"
          by (auto intro: BroadcastToAll_atomic)
        moreover have "atomic s (ClearElements (cl_Room (clients s c)) s)"
          by (rule a_clear)
        ultimately show ?thesis
          by (rule converse_rtranclp_into_rtranclp [rotated])
      next
        case False
        with run nc \<open>msg_Type m \<noteq> TypeDraw\<close> show ?thesis by simp
      qed
    qed
  qed
qed

lemma readPump_defer_atomic:
  assumes "readPump_defer c s = Some s'" and "c < next_client s"
    and "\<not> cl_closed (clients s c)"
  shows "atomic\<^sup>*\<^sup>* s s'"
proof -
  from assms(1) obtain s1 where 1: "readPump_close c s = Some s1"
    and rest: "(let r = cl_Room (clients s1 c);
           s2 = RemoveClient r c s1;
           s3 = Conn_Close c s2;
           leaveMsg = \<lparr>msg_Type = TypeLeave, msg_UserID = cl_ID (clients s3 c),
                       msg_Data = VJson JNull\<rparr>
       in Broadcast r (marshal_Message leaveMsg) c s3 \<bind>
          (\<lambda>s4. let userListMsg = \<lparr>msg_Type = TypeUserList, msg_UserID = [],
                          msg_Data = VUserList (GetUserList r s4)\<rparr>
                in BroadcastToAll r (marshal_Message userListMsg) s4 \<bind>
                   (\<lambda>s5. Some (log_Printf (LogLeft (cl_ID (clients s5 c)) (rm_ID (rooms s5 r))) s5))))
       = Some s'"
    unfolding readPump_defer_def by (cases "readPump_close c s") simp_all
  define r where "r = cl_Room (clients s1 c)"
  define s3 where "s3 = Conn_Close c (RemoveClient r c s1)"
  from rest obtain s4 where 4: "Broadcast r
      (marshal_Message \<lparr>msg_Type = TypeLeave, msg_UserID = cl_ID (clients s3 c),
                       msg_Data = VJson JNull\<rparr>) c s3 = Some s4"
    and rest2: "BroadcastToAll r (marshal_Message \<lparr>msg_Type = TypeUserList, msg_UserID = [],
                          msg_Data = VUserList (GetUserList r s4)\<rparr>) s4 \<bind>
                   (\<lambda>s5. Some (log_Printf (LogLeft (cl_ID (clients s5 c)) (rm_ID (rooms s5 r))) s5))
       = Some s'"
    unfolding Let_def r_def [symmetric] s3_def [symmetric]
    by (cases "Broadcast r
      (marshal_Message \<lparr>msg_Type = TypeLeave, msg_UserID = cl_ID (clients s3 c),
                       msg_Data = VJson JNull\<rparr>) c s3") simp_all
  from rest2 obtain s5 where 5: "BroadcastToAll r (marshal_Message \<lparr>msg_Type = TypeUserList,
        msg_UserID = [], msg_Data = VUserList (GetUserList r s4)\<rparr>) s4 = Some s5"
    and 6: "s' = log_Printf (LogLeft (cl_ID (clients s5 c)) (rm_ID (rooms s5 r))) s5"
    by (cases "BroadcastToAll r (marshal_Message \<lparr>msg_Type = TypeUserList,
        msg_UserID = [], msg_Data = VUserList (GetUserList r s4)\<rparr>) s4") auto
  have "atomic s5 s'" unfolding 6 by (rule a_log)
  then have "atomic\<^sup>*\<^sup>* s5 s'" by (rule atomic_one)
  with BroadcastToAll_atomic [OF 5] have "atomic\<^sup>*\<^sup>* s4 s'" by (rule rtranclp_trans)
  with Broadcast_atomic [OF 4] have "atomic\<^sup>*\<^sup>* s3 s'" by (rule rtranclp_trans)
  moreover have "atomic (RemoveClient r c s1) s3" unfolding s3_def by (rule a_conn_close)
  ultimately have "atomic\<^sup>*\<^sup>* (RemoveClient r c s1) s'" by (rule atomic_then [rotated])
  moreover have "atomic s1 (RemoveClient r c s1)" by (rule a_remove_client)
  ultimately have "atomic\<^sup>*\<^sup>* s1 s'" by (rule atomic_then [rotated])
  moreover have "atomic s s1" using assms(2,3) 1 by (rule a_close)
  ultimately show ?thesis by (rule atomic_then [rotated])
qed

lemma writePump_turn_atomic: "atomic\<^sup>*\<^sup>* s (fst (writePump_turn c s))"
proof (cases "ch_buf (cl_Send (clients s c))")
  case Nil
  have "atomic\<^sup>*\<^sup>* s (Conn_Close c s)" by (rule atomic_one) (rule a_conn_close)
  with Nil show ?thesis
    by (simp add: writePump_turn_def)
next
  case (Cons msg rest)
  let ?s1 = "update_client c (\<lambda>cl. cl\<lparr>cl_Send := (cl_Send cl)\<lparr>ch_buf := rest\<rparr>\<rparr>) s"
  let ?s2 = "update_client c (\<lambda>cl. cl\<lparr>cl_Conn := fst (WriteMessage msg (cl_Conn cl))\<rparr>) ?s1"
  have 1: "atomic s ?s1" using Cons by (rule a_recv)
  have 2: "atomic ?s1 ?s2" by (rule a_write)
  have 3: "atomic ?s2 (Conn_Close c ?s2)" by (rule a_conn_close)
  have 12: "atomic\<^sup>*\<^sup>* s ?s2"
    using 1 by (rule atomic_then) (rule atomic_one [OF 2])
  have 123: "atomic\<^sup>*\<^sup>* s (Conn_Close c ?s2)"
    using 12 3 by (rule rtranclp.rtrancl_into_rtrancl)
  have eq: "?s2 = update_client c
      (\<lambda>cl. cl\<lparr>cl_Conn := fst (WriteMessage msg (cl_Conn (clients ?s1 c)))\<rparr>) ?s1"
    by (simp add: update_client_def)
  have "fst (writePump_turn c s) = ?s2 \<or> fst (writePump_turn c s) = Conn_Close c ?s2"
    unfolding writePump_turn_def Cons list.case Let_def eq [symmetric]
    by (simp del: update_client_simps)
  with 12 123 show ?thesis by auto
qed

lemma randomString_loop_atomic:
  "randomString_loop TYPE('i) k (b, randSeed s) = Some (str, seed') \<Longrightarrow>
   atomic\<^sup>*\<^sup>* (s :: 'i::len state) (s\<lparr>randSeed := seed'\<rparr>)"
proof (induction k arbitrary: s b)
  case 0
  then have "s\<lparr>randSeed := seed'\<rparr> = s" by simp
  then show ?case by simp
next
  case (Suc k)
  from Suc.prems obtain r :: "'i word" and ch seed1 where
    1: "randomInt (of_nat (length letters)) (randSeed s) = Some (r, seed1)"
    and 2: "randomString_loop TYPE('i) k (b @ [ch], seed1) = Some (str, seed')"
    by (auto simp: randomString_turn_def split: option.splits)
  let ?s1 = "s\<lparr>randSeed := seed1\<rparr>"
  have "atomic s ?s1" using 1 by (rule a_seed)
  moreover have "atomic\<^sup>*\<^sup>* ?s1 (?s1\<lparr>randSeed := seed'\<rparr>)"
    by (rule Suc.IH [of "b @ [ch]" ?s1]) (simp add: 2)
  ultimately show ?case by (simp add: atomic_then)
qed

text \<open>
  \<open>handleWebSocket\<close> after it has its user id (\<open>uid\<close>, in the state \<open>s0\<close>): the rest
  of the handler makes no draw.
\<close>

lemma handleWebSocket_rest_quiet:
  assumes hs: "handleWebSocket roomId userId upgraded (s :: 'i::len state) = Some (x, s')"
    and X: "(if userId = [] then
             map_option (\<lambda>(i, seed). (i, s\<lparr>randSeed := seed\<rparr>)) (generateID TYPE('i) (randSeed s))
           else Some (userId, s)) = Some (uid, s0)"
  shows "quiet\<^sup>*\<^sup>* s0 s'"
proof -
  let ?roomID = "if roomId = [] then ''default'' else roomId"
  show ?thesis
  proof (cases upgraded)
    case False
    with hs X have "s' = log_Printf LogUpgradeError s0"
      unfolding handleWebSocket_def Let_def by simp
    then have "quiet s0 s'" by (simp add: quiet_def a_log)
    then show ?thesis by (rule quiet_one)
  next
    case True
    obtain room s1 where g: "GetOrCreateRoom ?roomID s0 = (room, s1)"
      by (cases "GetOrCreateRoom ?roomID s0")
    have "atomic s0 (snd (GetOrCreateRoom ?roomID s0))" by (rule a_room)
    moreover have "randSeed (snd (GetOrCreateRoom ?roomID s0)) = randSeed s0"
      by (simp add: GetOrCreateRoom_def Let_def split: option.splits)
    ultimately have a1: "quiet s0 s1" by (simp add: g quiet_def)
    have hw: "handleWebSocket roomId userId upgraded s =
        getNextColor s1 \<bind> (\<lambda>(color, s2).
          (let client = next_client s2;
               s3 = s2\<lparr>clients := (clients s2)(client := new_Client uid room color),
                       next_client := Suc client\<rparr>;
               s4 = log_Printf (LogJoined uid ?roomID) (AddClient room client s3);
               syncMsg = \<lparr>msg_Type = TypeSync, msg_UserID = uid,
                           msg_Data = VSync (GetElements room s4) uid color\<rparr>;
               s5 = update_client client
                      (\<lambda>cl. cl\<lparr>cl_Conn := fst (WriteMessage (marshal_Message syncMsg) (cl_Conn cl))\<rparr>)
                      s4;
               joinMsg = \<lparr>msg_Type = TypeJoin, msg_UserID = uid,
                           msg_Data = VUserInfo \<lparr>ui_ID = uid, ui_Color = color\<rparr>\<rparr>
           in Broadcast room (marshal_Message joinMsg) client s5 \<bind>
              (\<lambda>s6. BroadcastToAll room
                       (marshal_Message \<lparr>msg_Type = TypeUserList, msg_UserID = [],
                            msg_Data = VUserList (GetUserList room s6)\<rparr>) s6 \<bind>
                     (\<lambda>s7. Some (Some client, s7)))))"
      unfolding handleWebSocket_def by (simp add: X g True Let_def)
    obtain color s2 where c: "getNextColor s1 = Some (color, s2)"
      using hs unfolding hw by (cases "getNextColor s1") auto
    define client where "client = next_client s2"
    define s3 where "s3 = s2\<lparr>clients := (clients s2)(client := new_Client uid room color),
                              next_client := Suc client\<rparr>"
    define s4 where "s4 = log_Printf (LogJoined uid ?roomID) (AddClient room client s3)"
    define syncMsg where "syncMsg = \<lparr>msg_Type = TypeSync, msg_UserID = uid,
                         msg_Data = VSync (GetElements room s4) uid color\<rparr>"
    define s5 where "s5 = update_client client
         (\<lambda>cl. cl\<lparr>cl_Conn := fst (WriteMessage (marshal_Message syncMsg) (cl_Conn cl))\<rparr>) s4"
    define joinMsg where "joinMsg = \<lparr>msg_Type = TypeJoin, msg_UserID = uid,
                         msg_Data = VUserInfo \<lparr>ui_ID = uid, ui_Color = color\<rparr>\<rparr>"
    have hw2: "handleWebSocket roomId userId upgraded s =
        Broadcast room (marshal_Message joinMsg) client s5 \<bind>
              (\<lambda>s6. BroadcastToAll room
                       (marshal_Message \<lparr>msg_Type = TypeUserList, msg_UserID = [],
                            msg_Data = VUserList (GetUserList room s6)\<rparr>) s6 \<bind>
                     (\<lambda>s7. Some (Some client, s7)))"
      unfolding hw c
      by (simp add: Let_def client_def s3_def s4_def syncMsg_def s5_def joinMsg_def)
    obtain s6 where 6: "Broadcast room (marshal_Message joinMsg) client s5 = Some s6"
      using hs unfolding hw2
      by (cases "Broadcast room (marshal_Message joinMsg) client s5") auto
    have 7: "BroadcastToAll room
          (marshal_Message \<lparr>msg_Type = TypeUserList, msg_UserID = [],
                            msg_Data = VUserList (GetUserList room s6)\<rparr>) s6 = Some s'"
      using hs unfolding hw2 6 by (auto simp: bind_eq_Some_conv)
    have "atomic s1 s2" using c by (rule a_color)
    moreover have "randSeed s2 = randSeed s1"
      using getNextColor_state [OF c] by simp
    ultimately have a2: "quiet s1 s2" by (simp add: quiet_def)
    have "atomic s2 s3" unfolding s3_def client_def by (rule a_new)
    then have a3: "quiet s2 s3" by (simp add: quiet_def s3_def)
    have "atomic s3 (AddClient room client s3)" by (rule a_add_client)
    then have a4: "quiet s3 (AddClient room client s3)" by (simp add: quiet_def AddClient_def)
    have "atomic (AddClient room client s3) s4" unfolding s4_def by (rule a_log)
    then have a4': "quiet (AddClient room client s3) s4" by (simp add: quiet_def s4_def)
    have "atomic s4 s5" unfolding s5_def by (rule a_write)
    then have a5: "quiet s4 s5" by (simp add: quiet_def s5_def)
    have "quiet\<^sup>*\<^sup>* s6 s'" using 7 by (rule BroadcastToAll_quiet)
    with Broadcast_quiet [OF 6] have "quiet\<^sup>*\<^sup>* s5 s'" by (rule rtranclp_trans)
    with a5 have "quiet\<^sup>*\<^sup>* s4 s'" by (rule quiet_then)
    with a4' have "quiet\<^sup>*\<^sup>* (AddClient room client s3) s'" by (rule quiet_then)
    with a4 have "quiet\<^sup>*\<^sup>* s3 s'" by (rule quiet_then)
    with a3 have "quiet\<^sup>*\<^sup>* s2 s'" by (rule quiet_then)
    with a2 have "quiet\<^sup>*\<^sup>* s1 s'" by (rule quiet_then)
    with a1 show ?thesis by (rule quiet_then)
  qed
qed

lemma handleWebSocket_atomic:
  assumes "handleWebSocket roomId userId upgraded (s :: 'i::len state) = Some (x, s')"
  shows "atomic\<^sup>*\<^sup>* s s'"
proof -
  let ?X = "if userId = [] then
             map_option (\<lambda>(i, seed). (i, s\<lparr>randSeed := seed\<rparr>)) (generateID TYPE('i) (randSeed s))
           else Some (userId, s)"
  from assms obtain uid s0 where X: "?X = Some (uid, s0)"
    unfolding handleWebSocket_def Let_def by (cases ?X) auto
  have a0: "atomic\<^sup>*\<^sup>* s s0"
  proof (cases "userId = []")
    case True
    with X obtain seed where "generateID TYPE('i) (randSeed s) = Some (uid, seed)"
      and s0: "s0 = s\<lparr>randSeed := seed\<rparr>" by auto
    then have "randomString_loop TYPE('i) (nat (sint (8 :: 'i word))) ([], randSeed s)
        = Some (uid, seed)"
      by (simp add: generateID_def randomString_def split: if_splits)
    then show ?thesis unfolding s0 by (rule randomString_loop_atomic)
  next
    case False
    with X show ?thesis by simp
  qed
  have "quiet\<^sup>*\<^sup>* s0 s'"
    using assms X by (rule handleWebSocket_rest_quiet)
  then have "atomic\<^sup>*\<^sup>* s0 s'"
    by (rule quiet_steps_atomic)
  with a0 show ?thesis by (rule rtranclp_trans)
qed

text \<open>
  The schedule in which one call takes all the turns is the loop of \<open>randomString\<close>,
  and \<open>handleWebSocket\<close>, entered while no call of \<open>generateID()\<close> is in progress, is a
  run in which the calls do not overlap: it returns one id when the request has no
  user id, and none otherwise.
\<close>

lemma randomString_loop_length:
  "randomString_loop T k (b, seed) = Some (b', seed') \<Longrightarrow> length b' = length b + k"
proof (induction k arbitrary: b seed)
  case 0
  then show ?case by simp
next
  case (Suc k)
  from Suc.prems obtain b1 seed1 where 1: "randomString_turn T (b, seed) = Some (b1, seed1)"
    and 2: "randomString_loop T k (b1, seed1) = Some (b', seed')"
    by (auto split: option.splits)
  from 1 have "length b1 = Suc (length b)" by (rule randomString_turn_length)
  with Suc.IH [OF 2] show ?case by simp
qed

lemma scheduled_turns_alone:
  "length b + k \<le> 8 \<Longrightarrow>
   scheduled_turns T (replicate k 0) [b] seed
     = map_option (\<lambda>(b', seed'). ([b'], seed')) (randomString_loop T k (b, seed))"
proof (induction k arbitrary: b seed)
  case 0
  show ?case by simp
next
  case (Suc k)
  show ?case
  proof (cases "randomString_turn T (b, seed)")
    case None
    with Suc.prems show ?thesis by simp
  next
    case (Some bs)
    obtain b1 seed1 where bs: "bs = (b1, seed1)" by (cases bs)
    from Some have "length b1 = Suc (length b)"
      unfolding bs by (rule randomString_turn_length)
    with Suc.prems have "length b1 + k \<le> 8" by simp
    from Suc.IH [OF this, of seed1] Some Suc.prems show ?thesis
      by (simp add: bs)
  qed
qed

lemma quiet_steps_gen_run:
  "quiet\<^sup>*\<^sup>* s s' \<Longrightarrow> gen_run m ids calls s \<Longrightarrow> gen_run m ids calls s'"
proof (induction rule: rtranclp_induct)
  case base
  then show ?case .
next
  case (step t u)
  from step.IH [OF step.prems] step.hyps(2) show ?case by (rule g_other)
qed

lemma handleWebSocket_gen_run:
  assumes len: "48 < LENGTH('i::len)" and m: "0 < m"
    and run: "gen_run m ids [] (s :: 'i state)"
    and hs: "handleWebSocket roomId userId upgraded s = Some (x, s')"
  shows "if userId = []
         then \<exists>i seed. generateID TYPE('i) (randSeed s) = Some (i, seed) \<and> length i = 8
                \<and> gen_run m (ids @ [i]) [] s'
         else gen_run m ids [] s'"
proof -
  let ?X = "if userId = [] then
             map_option (\<lambda>(i, seed). (i, s\<lparr>randSeed := seed\<rparr>)) (generateID TYPE('i) (randSeed s))
           else Some (userId, s)"
  from hs obtain uid s0 where X: "?X = Some (uid, s0)"
    unfolding handleWebSocket_def Let_def by (cases ?X) auto
  have rest: "quiet\<^sup>*\<^sup>* s0 s'"
    using hs X by (rule handleWebSocket_rest_quiet)
  show ?thesis
  proof (cases "userId = []")
    case True
    with X obtain seed where g: "generateID TYPE('i) (randSeed s) = Some (uid, seed)"
      and s0: "s0 = s\<lparr>randSeed := seed\<rparr>" by auto
    from g have loop: "randomString_loop TYPE('i) 8 ([], randSeed s) = Some (uid, seed)"
      by (simp add: generateID_loop [OF len])
    then have l: "length uid = 8"
      using randomString_loop_length [OF loop] by simp
    have "scheduled_turns TYPE('i) (replicate 8 0) [[]] (randSeed s) = Some ([uid], seed)"
      using scheduled_turns_alone [of "[]" 8 "TYPE('i)" "randSeed s"] loop by simp
    with run m have "gen_run m (ids @ [uid]) [] (s\<lparr>randSeed := seed\<rparr>)"
      using l by (rule gen_run_call)
    with rest [unfolded s0] have "gen_run m (ids @ [uid]) [] s'"
      by (rule quiet_steps_gen_run)
    with g l True show ?thesis by auto
  next
    case False
    with X have "s0 = s" by simp
    with rest have "quiet\<^sup>*\<^sup>* s s'" by simp
    then have "gen_run m ids [] s'" using run by (rule quiet_steps_gen_run)
    with False show ?thesis by simp
  qed
qed

lemma atomic_color:
  assumes "0 \<le> sint (colorIndex s)"
  shows "atomic s (s\<lparr>colorIndex := colorIndex s + 1\<rparr>)"
proof -
  obtain color where "getNextColor s = Some (color, s\<lparr>colorIndex := colorIndex s + 1\<rparr>)"
    using getNextColor_Some [OF assms] by blast
  then show ?thesis by (rule a_color)
qed

lemma reachable_step: "reachable s \<Longrightarrow> atomic s t \<Longrightarrow> reachable t"
  unfolding reachable_def by (rule rtranclp.rtrancl_into_rtrancl)

lemma reachable_init: "reachable init_state"
  unfolding reachable_def by (rule rtranclp.rtrancl_refl)

lemma reachable_ex_state: "reachable ex_state"
proof -
  define t1 where "t1 = snd (GetOrCreateRoom ''abc123'' (init_state :: 64 state))"
  define t2 where "t2 = t1\<lparr>colorIndex := colorIndex t1 + 1\<rparr>"
  define t3 where "t3 = t2\<lparr>clients := (clients t2)(next_client t2 := new_Client ''A'' 0 ''#e74c3c''),
                          next_client := Suc (next_client t2)\<rparr>"
  define t4 where "t4 = AddClient 0 0 t3"
  define t5 where "t5 = t4\<lparr>colorIndex := colorIndex t4 + 1\<rparr>"
  define t6 where "t6 = t5\<lparr>clients := (clients t5)(next_client t5 := new_Client ''B'' 0 ''#3498db''),
                          next_client := Suc (next_client t5)\<rparr>"
  define t7 where "t7 = AddClient 0 1 t6"
  have c1: "colorIndex t1 = 0"
    by (simp add: t1_def GetOrCreateRoom_def init_state_def Let_def)
  have c4: "colorIndex t4 = 1"
    by (simp add: t4_def AddClient_def t3_def t2_def c1)
  have r1: "reachable t1" unfolding t1_def by (rule reachable_step [OF reachable_init a_room])
  have "atomic t1 t2" unfolding t2_def by (rule atomic_color) (simp add: c1)
  with r1 have r2: "reachable t2" by (rule reachable_step)
  have "atomic t2 t3" unfolding t3_def by (rule a_new)
  with r2 have r3: "reachable t3" by (rule reachable_step)
  have "atomic t3 t4" unfolding t4_def by (rule a_add_client)
  with r3 have r4: "reachable t4" by (rule reachable_step)
  have "atomic t4 t5" unfolding t5_def by (rule atomic_color) (simp add: c4)
  with r4 have r5: "reachable t5" by (rule reachable_step)
  have "atomic t5 t6" unfolding t6_def by (rule a_new)
  with r5 have r6: "reachable t6" by (rule reachable_step)
  have "atomic t6 t7" unfolding t7_def by (rule a_add_client)
  with r6 have r7: "reachable t7" by (rule reachable_step)
  have "t7 = ex_state"
    by (simp add: t7_def t6_def t5_def t4_def t3_def t2_def t1_def ex_state_def init_state_def
        GetOrCreateRoom_def AddClient_def update_room_def Let_def zero_Room_def fun_eq_iff)
  with r7 show ?thesis by simp
qed

lemma reachable_ex_closing_state: "reachable ex_closing_state"
proof -
  have "readPump_close 1 ex_state = Some ex_closing_state"
    by (simp add: readPump_close_def chan_close_def ex_closing_state_def ex_state_clients
        new_Client_def make_chan_def)
  moreover have "1 < next_client ex_state" "\<not> cl_closed (clients ex_state 1)"
    by (simp_all add: ex_state_misc ex_state_clients new_Client_def)
  ultimately have "atomic ex_state ex_closing_state"
    by (intro a_close [where client = 1]) simp_all
  with reachable_ex_state show ?thesis by (rule reachable_step)
qed

text \<open>
  C5.  In every state a run of the server reaches, the queue of a connection is closed
  exactly when its \<open>closed\<close> flag is set, so no enqueue attempt and no broadcast sends
  on a closed queue (none panics); an enqueue attempt on a connection whose teardown
  has begun leaves the state as it is, and from then on the connection stays closing
  and its queue only loses payloads at its front, whatever steps follow.
\<close>

theorem no_send_after_close:
  assumes "reachable s"
  shows "ch_closed (cl_Send (clients s c)) = cl_closed (clients s c)
         \<and> (\<exists>s'. send_locked msg c s = Some s')
         \<and> (\<exists>s'. Broadcast r msg sender s = Some s')
         \<and> (\<exists>s'. BroadcastToAll r msg s = Some s')
         \<and> (cl_closed (clients s c) \<longrightarrow> send_locked msg c s = Some s)
         \<and> (cl_closed (clients s c) \<and> atomic\<^sup>*\<^sup>* s t \<longrightarrow>
              cl_closed (clients t c) \<and> (\<exists>k. Send_buf c t = drop k (Send_buf c s)))"
proof -
  have inv: "chan_inv s" using assms by (rule chan_inv_reachable)
  have sb: "\<And>p. sendable (clients s p)" using inv by (rule chan_inv_sendable)
  have 1: "ch_closed (cl_Send (clients s c)) = cl_closed (clients s c)"
    using inv by (simp add: chan_inv_def)
  have 2: "\<exists>s'. send_locked msg c s = Some s'"
    using sb by (simp add: send_locked_eq)
  have 3: "\<exists>s'. Broadcast r msg sender s = Some s'"
    using sb by (simp add: Broadcast_eq)
  have 4: "\<exists>s'. BroadcastToAll r msg s = Some s'"
    using sb by (simp add: BroadcastToAll_eq)
  have 5: "cl_closed (clients s c) \<longrightarrow> send_locked msg c s = Some s"
    by (simp add: send_locked_def)
  have 6: "cl_closed (clients s c) \<and> atomic\<^sup>*\<^sup>* s t \<longrightarrow>
              cl_closed (clients t c) \<and> (\<exists>k. Send_buf c t = drop k (Send_buf c s))"
    using closed_steps [OF _ inv] by blast
  from 1 2 3 4 5 6 show ?thesis by blast
qed

text \<open>The theorem at the example: the teardown of B has begun, A broadcasts.\<close>

theorem no_send_after_close_witness:
  "reachable ex_closing_state
   \<and> cl_closed (clients ex_closing_state 1)
   \<and> ch_closed (cl_Send (clients ex_closing_state 1))
   \<and> members 0 ex_closing_state = [1, 0]
   \<and> send_locked ex_cursor_payload 1 ex_closing_state = Some ex_closing_state
   \<and> (\<exists>s'. Broadcast 0 ex_cursor_payload 0 ex_closing_state = Some s')"
proof -
  have c: "cl_closed (clients ex_closing_state 1)"
    by (simp add: ex_closing_state_def)
  have m: "members 0 ex_closing_state = [1, 0]"
    by (simp add: ex_closing_state_def members_ex_state)
  from no_send_after_close [OF reachable_ex_closing_state,
      where c = 1 and msg = ex_cursor_payload and r = 0 and sender = 0] c m
    reachable_ex_closing_state
  show ?thesis by simp
qed

end
